(* ===== verification/Rust_Str.thy ===== *)
theory Rust_Str
  imports Prelude
begin

text \<open>
  The functions of Rust's \<open>str\<close>, \<open>slice\<close> and integer parsing that the sources call, over byte
  lists: searching, splitting, trimming (with the \<open>White_Space\<close> code points of Unicode, as UTF-8
  byte sequences), UTF-8 validation and \<open>str::parse\<close> for unsigned integers, which accepts a
  leading plus sign.
\<close>

section \<open>Searching and splitting\<close>

fun position :: "('a \<Rightarrow> bool) \<Rightarrow> 'a list \<Rightarrow> nat option" where
  "position p [] = None"
| "position p (x # xs) = (if p x then Some 0 else map_option Suc (position p xs))"

definition str_find :: "char \<Rightarrow> string \<Rightarrow> nat option" where
  "str_find d s = position (\<lambda>c. c = d) s"

fun strip_prefix :: "string \<Rightarrow> string \<Rightarrow> string option" where
  "strip_prefix [] s = Some s"
| "strip_prefix (p # ps) [] = None"
| "strip_prefix (p # ps) (c # s) = (if p = c then strip_prefix ps s else None)"

definition starts_with :: "string \<Rightarrow> string \<Rightarrow> bool" where
  "starts_with p s \<longleftrightarrow> strip_prefix p s \<noteq> None"

definition ends_with :: "string \<Rightarrow> string \<Rightarrow> bool" where
  "ends_with p s \<longleftrightarrow> starts_with (rev p) (rev s)"

definition strip_suffix :: "string \<Rightarrow> string \<Rightarrow> string option" where
  "strip_suffix p s = map_option rev (strip_prefix (rev p) (rev s))"

definition split_once :: "char \<Rightarrow> string \<Rightarrow> (string \<times> string) option" where
  "split_once d s =
     (case str_find d s of None \<Rightarrow> None | Some i \<Rightarrow> Some (take i s, drop (Suc i) s))"

fun cons_hd :: "'a \<Rightarrow> 'a list list \<Rightarrow> 'a list list" where
  "cons_hd x [] = [[x]]"
| "cons_hd x (y # ys) = (x # y) # ys"

fun split_on :: "char \<Rightarrow> string \<Rightarrow> string list" where
  "split_on d [] = [[]]"
| "split_on d (c # s) = (if c = d then [] # split_on d s else cons_hd c (split_on d s))"

text \<open>\<open>str::split("\r\n")\<close>.\<close>

fun split_crlf :: "string \<Rightarrow> string list" where
  "split_crlf [] = [[]]"
| "split_crlf [c] = [[c]]"
| "split_crlf (c # d # s) =
     (if c = CR \<and> d = LF then [] # split_crlf s else cons_hd c (split_crlf (d # s)))"

fun join_with :: "'a list \<Rightarrow> 'a list list \<Rightarrow> 'a list" where
  "join_with sep [] = []"
| "join_with sep [x] = x"
| "join_with sep (x # y # xs) = x @ sep @ join_with sep (y # xs)"

lemma position_Some_less: "position p xs = Some i \<Longrightarrow> i < length xs"
  by (induction xs arbitrary: i) (auto split: if_splits)

lemma position_Some_iff:
  "position p xs = Some i \<longleftrightarrow> i < length xs \<and> p (xs ! i) \<and> (\<forall>j < i. \<not> p (xs ! j))"
proof (induction xs arbitrary: i)
  case Nil
  then show ?case by simp
next
  case (Cons x xs)
  show ?case
    by (cases i) (auto simp: Cons.IH less_Suc_eq_0_disj)
qed

lemma position_None_iff: "position p xs = None \<longleftrightarrow> (\<forall>x \<in> set xs. \<not> p x)"
  by (induction xs) auto

lemma position_take_drop:
  assumes "position p xs = Some i"
  shows "xs = take i xs @ xs ! i # drop (Suc i) xs" and "\<forall>x \<in> set (take i xs). \<not> p x" and "p (xs ! i)"
proof -
  from assms have i: "i < length xs" by (rule position_Some_less)
  then show "xs = take i xs @ xs ! i # drop (Suc i) xs"
    by (rule id_take_nth_drop)
  from assms show "\<forall>x \<in> set (take i xs). \<not> p x"
    using i by (auto simp: position_Some_iff in_set_conv_nth)
  from assms show "p (xs ! i)"
    by (simp add: position_Some_iff)
qed

lemma position_append_Some: "position p xs = Some i \<Longrightarrow> position p (xs @ ys) = Some i"
  by (induction xs arbitrary: i) (auto split: if_splits)

lemma position_append_hit:
  "\<forall>x \<in> set xs. \<not> p x \<Longrightarrow> p y \<Longrightarrow> position p (xs @ y # ys) = Some (length xs)"
  by (induction xs) auto

lemma strip_prefix_eq_Some: "strip_prefix p s = Some t \<longleftrightarrow> s = p @ t"
  by (induction p s rule: strip_prefix.induct) auto

lemma strip_prefix_append [simp]: "strip_prefix p (p @ t) = Some t"
  by (simp add: strip_prefix_eq_Some)

lemma starts_with_iff: "starts_with p s \<longleftrightarrow> prefix p s"
  by (cases "strip_prefix p s") (auto simp: starts_with_def strip_prefix_eq_Some prefix_def)

lemma ends_with_iff: "ends_with p s \<longleftrightarrow> suffix p s"
  by (simp add: ends_with_def starts_with_iff suffix_to_prefix)

lemma strip_suffix_eq_Some: "strip_suffix p s = Some t \<longleftrightarrow> s = t @ p"
proof -
  have "strip_suffix p s = Some t \<longleftrightarrow> rev s = rev p @ rev t"
    by (auto simp: strip_suffix_def strip_prefix_eq_Some)
  also have "\<dots> \<longleftrightarrow> s = t @ p"
    by (simp flip: rev_append)
  finally show ?thesis .
qed

lemma split_once_eq_Some:
  "split_once d s = Some (a, b) \<longleftrightarrow> s = a @ d # b \<and> d \<notin> set a"
proof
  assume "split_once d s = Some (a, b)"
  then obtain i where i: "position (\<lambda>c. c = d) s = Some i"
    and ab: "a = take i s" "b = drop (Suc i) s"
    by (auto simp: split_once_def str_find_def split: option.splits)
  from position_take_drop [OF i] ab show "s = a @ d # b \<and> d \<notin> set a"
    by auto
next
  assume *: "s = a @ d # b \<and> d \<notin> set a"
  then have "position (\<lambda>c. c = d) s = Some (length a)"
    by (auto intro: position_append_hit)
  with * show "split_once d s = Some (a, b)"
    by (simp add: split_once_def str_find_def)
qed

lemma split_once_eq_None: "split_once d s = None \<longleftrightarrow> d \<notin> set s"
proof -
  have "split_once d s = None \<longleftrightarrow> position (\<lambda>c. c = d) s = None"
    by (simp add: split_once_def str_find_def split: option.split)
  then show ?thesis
    by (auto simp: position_None_iff)
qed

lemma cons_hd_neq_Nil [simp]: "cons_hd x ys \<noteq> []"
  by (cases ys) auto

lemma split_on_neq_Nil [simp]: "split_on d s \<noteq> []"
  by (cases s) auto

lemma split_crlf_neq_Nil [simp]: "split_crlf s \<noteq> []"
  by (cases s rule: split_crlf.cases) auto

lemma join_with_cons_hd: "ys \<noteq> [] \<Longrightarrow> join_with sep (cons_hd x ys) = x # join_with sep ys"
  by (cases "(sep, ys)" rule: join_with.cases) auto

lemma join_with_Cons: "ys \<noteq> [] \<Longrightarrow> join_with sep (x # ys) = x @ sep @ join_with sep ys"
  by (cases ys) auto

lemma join_split_on: "join_with [d] (split_on d s) = s"
  by (induction s) (auto simp: join_with_cons_hd join_with_Cons)

lemma join_split_crlf: "join_with [CR, LF] (split_crlf s) = s"
  by (induction s rule: split_crlf.induct) (auto simp: join_with_cons_hd join_with_Cons)

lemma set_cons_hd: "set (cons_hd x ys) \<subseteq> insert [x] (set ys \<union> (#) x ` set ys)"
  by (cases ys) auto

lemma split_on_no_sep: "t \<in> set (split_on d s) \<Longrightarrow> d \<notin> set t"
proof (induction s arbitrary: t)
  case Nil
  then show ?case by simp
next
  case (Cons c s)
  then show ?case
    by (cases "split_on d s") (auto split: if_splits)
qed

lemma split_on_single: "d \<notin> set s \<Longrightarrow> split_on d s = [s]"
  by (induction s) auto

lemma split_on_append: "d \<notin> set a \<Longrightarrow> split_on d (a @ d # b) = a # split_on d b"
  by (induction a) auto

lemma split_on_join:
  "xs \<noteq> [] \<Longrightarrow> (\<And>x. x \<in> set xs \<Longrightarrow> d \<notin> set x) \<Longrightarrow> split_on d (join_with [d] xs) = xs"
proof (induction xs)
  case (Cons x xs)
  then show ?case
    by (cases "xs = []") (simp_all add: join_with_Cons split_on_single split_on_append)
qed simp

lemma split_on_subset: "t \<in> set (split_on d s) \<Longrightarrow> set t \<subseteq> set s"
proof (induction s arbitrary: t)
  case Nil
  then show ?case by simp
next
  case (Cons c s)
  then show ?case
    by (cases "split_on d s") (fastforce split: if_splits)+
qed


section \<open>Trimming white space\<close>

text \<open>
  \<open>ws_head s\<close> is the number of bytes of the white-space character \<open>s\<close> starts with, 0 if there is
  none: \<open>char::is_whitespace\<close>, the code points of Unicode's \<open>White_Space\<close> in UTF-8. \<open>ws_last\<close>
  is the same at the end of a string, on the reversed bytes.
\<close>

definition is_ascii_ws :: "char \<Rightarrow> bool" where
  "is_ascii_ws c \<longleftrightarrow> byte_in 9 13 c \<or> byte c = 32"

definition is_ws2 :: "nat \<Rightarrow> nat \<Rightarrow> bool" where
  "is_ws2 a b \<longleftrightarrow> a = 0xC2 \<and> (b = 0x85 \<or> b = 0xA0)"

definition is_ws3 :: "nat \<Rightarrow> nat \<Rightarrow> nat \<Rightarrow> bool" where
  "is_ws3 a b c \<longleftrightarrow>
     a = 0xE1 \<and> b = 0x9A \<and> c = 0x80 \<or>
     a = 0xE2 \<and> b = 0x80 \<and> (0x80 \<le> c \<and> c \<le> 0x8A \<or> c = 0xA8 \<or> c = 0xA9 \<or> c = 0xAF) \<or>
     a = 0xE2 \<and> b = 0x81 \<and> c = 0x9F \<or>
     a = 0xE3 \<and> b = 0x80 \<and> c = 0x80"

definition ws_head :: "string \<Rightarrow> nat" where
  "ws_head s =
     (case s of
        [] \<Rightarrow> 0
      | a # r \<Rightarrow>
          if is_ascii_ws a then 1
          else (case r of
             [] \<Rightarrow> 0
           | b # r' \<Rightarrow>
               if is_ws2 (byte a) (byte b) then 2
               else (case r' of
                  [] \<Rightarrow> 0
                | c # _ \<Rightarrow> if is_ws3 (byte a) (byte b) (byte c) then 3 else 0)))"

definition ws_last :: "string \<Rightarrow> nat" where
  "ws_last s =
     (case s of
        [] \<Rightarrow> 0
      | a # r \<Rightarrow>
          if is_ascii_ws a then 1
          else (case r of
             [] \<Rightarrow> 0
           | b # r' \<Rightarrow>
               if is_ws2 (byte b) (byte a) then 2
               else (case r' of
                  [] \<Rightarrow> 0
                | c # _ \<Rightarrow> if is_ws3 (byte c) (byte b) (byte a) then 3 else 0)))"

lemma ws_head_le: "ws_head s \<le> length s"
  by (auto simp: ws_head_def split: list.splits)

lemma ws_last_le: "ws_last s \<le> length s"
  by (auto simp: ws_last_def split: list.splits)

function trim_start :: "string \<Rightarrow> string" where
  "trim_start s = (if ws_head s = 0 then s else trim_start (drop (ws_head s) s))"
  by pat_completeness auto
termination
proof (relation "measure length")
  show "wf (measure length)" by simp
  fix s :: string
  assume "ws_head s \<noteq> 0"
  with ws_head_le [of s] show "(drop (ws_head s) s, s) \<in> measure length"
    by auto
qed

function trim_last :: "string \<Rightarrow> string" where
  "trim_last s = (if ws_last s = 0 then s else trim_last (drop (ws_last s) s))"
  by pat_completeness auto
termination
proof (relation "measure length")
  show "wf (measure length)" by simp
  fix s :: string
  assume "ws_last s \<noteq> 0"
  with ws_last_le [of s] show "(drop (ws_last s) s, s) \<in> measure length"
    by auto
qed

declare trim_start.simps [simp del] trim_last.simps [simp del]

definition trim_end :: "string \<Rightarrow> string" where
  "trim_end s = rev (trim_last (rev s))"

definition trim :: "string \<Rightarrow> string" where
  "trim s = trim_end (trim_start s)"

lemma set_trim_start: "set (trim_start s) \<subseteq> set s"
proof (induction s rule: trim_start.induct)
  case (1 s)
  show ?case
    by (cases "ws_head s = 0")
      (use "1.IH" set_drop_subset [of "ws_head s" s] in \<open>auto simp: trim_start.simps [of s]\<close>)
qed

lemma set_trim_last: "set (trim_last s) \<subseteq> set s"
proof (induction s rule: trim_last.induct)
  case (1 s)
  show ?case
    by (cases "ws_last s = 0")
      (use "1.IH" set_drop_subset [of "ws_last s" s] in \<open>auto simp: trim_last.simps [of s]\<close>)
qed

lemma set_trim: "set (trim s) \<subseteq> set s"
  using set_trim_start [of s] set_trim_last [of "rev (trim_start s)"]
  by (auto simp: trim_def trim_end_def)

lemma trim_start_ws_head [simp]: "ws_head (trim_start s) = 0"
proof (induction s rule: trim_start.induct)
  case (1 s)
  then show ?case
    by (cases "ws_head s = 0") (auto simp: trim_start.simps [of s])
qed

lemma trim_start_fixed: "ws_head s = 0 \<Longrightarrow> trim_start s = s"
  by (subst trim_start.simps) simp

lemma trim_end_fixed: "ws_last (rev s) = 0 \<Longrightarrow> trim_end s = s"
  unfolding trim_end_def by (subst trim_last.simps) simp

lemma trim_fixed: "ws_head s = 0 \<Longrightarrow> ws_last (rev s) = 0 \<Longrightarrow> trim s = s"
  by (simp add: trim_def trim_start_fixed trim_end_fixed)

text \<open>Strings with no white space at all: ASCII without the six ASCII white-space bytes.\<close>

definition no_ws :: "string \<Rightarrow> bool" where
  "no_ws s \<longleftrightarrow> list_all (\<lambda>c. 33 \<le> byte c \<and> byte c < 128) s"

lemma not_ws_bytes:
  "33 \<le> byte c \<and> byte c < 128 \<Longrightarrow> \<not> is_ascii_ws c"
  "a < 128 \<Longrightarrow> \<not> is_ws2 a b"
  "a < 128 \<Longrightarrow> \<not> is_ws3 a b d"
  by (auto simp: is_ascii_ws_def byte_in_def is_ws2_def is_ws3_def)

lemma no_ws_head: "no_ws s \<Longrightarrow> ws_head s = 0"
  by (auto simp: no_ws_def ws_head_def not_ws_bytes split: list.split)

lemma no_ws_last: "no_ws s \<Longrightarrow> ws_last s = 0"
  by (auto simp: no_ws_def ws_last_def not_ws_bytes split: list.split)

lemma trim_no_ws: "no_ws s \<Longrightarrow> trim s = s"
  by (rule trim_fixed) (auto intro!: no_ws_head no_ws_last simp: no_ws_def list_all_rev)

text \<open>\<open>str::split_whitespace\<close>: the maximal runs without white space.\<close>

fun split_word :: "string \<Rightarrow> string \<times> string" where
  "split_word [] = ([], [])"
| "split_word (c # s) =
     (if ws_head (c # s) > 0 then ([], c # s)
      else (case split_word s of (w, r) \<Rightarrow> (c # w, r)))"

lemma split_word_append: "split_word s = (w, r) \<Longrightarrow> s = w @ r"
  by (induction s arbitrary: w r) (auto split: if_splits prod.splits)

lemma split_word_shorter: "s \<noteq> [] \<Longrightarrow> ws_head s = 0 \<Longrightarrow> length (snd (split_word s)) < length s"
proof (cases s)
  case (Cons c t)
  assume "ws_head s = 0"
  then have "snd (split_word s) = snd (split_word t)"
    using Cons by (simp split: prod.split)
  moreover have "length (snd (split_word t)) \<le> length t"
    using split_word_append [of t] by (cases "split_word t") auto
  ultimately show ?thesis using Cons by simp
qed simp

lemma length_trim_start: "length (trim_start s) \<le> length s"
proof (induction s rule: trim_start.induct)
  case (1 s)
  show ?case
  proof (cases "ws_head s = 0")
    case True
    then show ?thesis by (subst trim_start.simps) simp
  next
    case False
    then have "length (trim_start (drop (ws_head s) s)) \<le> length (drop (ws_head s) s)" by (rule 1)
    with False show ?thesis by (subst trim_start.simps) simp
  qed
qed

function split_whitespace :: "string \<Rightarrow> string list" where
  "split_whitespace s =
     (let t = trim_start s
      in if t = [] then []
         else (case split_word t of (w, r) \<Rightarrow> w # split_whitespace r))"
  by pat_completeness auto
termination
proof (relation "measure length")
  fix s t w r
  assume "t = trim_start s" "t \<noteq> []" "(w, r) = split_word t"
  then have "length r < length t"
    using split_word_shorter [of t] trim_start_ws_head [of s] by (metis snd_conv)
  also have "\<dots> \<le> length s" using \<open>t = trim_start s\<close> by (simp add: length_trim_start)
  finally show "(r, s) \<in> measure length" by simp
qed simp

declare split_whitespace.simps [simp del]

lemma split_word_no_ws:
  assumes "no_ws w" and "r = [] \<or> ws_head r > 0"
  shows "split_word (w @ r) = (w, r)"
  using assms(1)
proof (induction w)
  case Nil
  then show ?case using assms(2) by (cases r) auto
next
  case (Cons c w)
  then have "ws_head (c # w @ r) = 0"
    by (auto simp: no_ws_def ws_head_def not_ws_bytes split: list.split)
  with Cons show ?case by (simp add: no_ws_def)
qed

lemma split_whitespace_word:
  assumes "no_ws w" and "w \<noteq> []"
  shows "split_whitespace w = [w]" and "split_whitespace (w @ SP # s) = w # split_whitespace s"
proof -
  have head: "ws_head (w @ r) = 0" for r
    using assms by (cases w) (auto simp: no_ws_def ws_head_def not_ws_bytes split: list.split)
  have sp: "ws_head (SP # s) = 1"
    by (simp add: ws_head_def is_ascii_ws_def split: list.split)
  have nil: "split_whitespace [] = []"
    by (subst split_whitespace.simps) (simp add: trim_start_fixed ws_head_def)
  have skip: "split_whitespace (SP # s) = split_whitespace s"
    by (subst (1 2) split_whitespace.simps, subst trim_start.simps) (simp add: sp)
  show "split_whitespace w = [w]"
    using head [of "[]"] split_word_no_ws [OF assms(1), of "[]"] assms(2) nil
    by (subst split_whitespace.simps) (simp add: trim_start_fixed)
  show "split_whitespace (w @ SP # s) = w # split_whitespace s"
    using head [of "SP # s"] split_word_no_ws [OF assms(1), of "SP # s"] assms(2) sp skip
    by (subst split_whitespace.simps) (simp add: trim_start_fixed)
qed


section \<open>UTF-8 validation\<close>

definition is_cont :: "char \<Rightarrow> bool" where
  "is_cont c = byte_in 0x80 0xBF c"

definition utf8_len :: "bytes \<Rightarrow> nat" where
  "utf8_len s =
     (case s of
        [] \<Rightarrow> 0
      | a # r \<Rightarrow>
          if byte a < 0x80 then 1
          else (case r of
             [] \<Rightarrow> 0
           | b # r1 \<Rightarrow>
               if byte_in 0xC2 0xDF a \<and> is_cont b then 2
               else (case r1 of
                  [] \<Rightarrow> 0
                | c # r2 \<Rightarrow>
                    if (byte a = 0xE0 \<and> byte_in 0xA0 0xBF b \<or>
                        byte_in 0xE1 0xEC a \<and> is_cont b \<or>
                        byte a = 0xED \<and> byte_in 0x80 0x9F b \<or>
                        byte_in 0xEE 0xEF a \<and> is_cont b) \<and> is_cont c then 3
                    else (case r2 of
                       [] \<Rightarrow> 0
                     | d # _ \<Rightarrow>
                         if (byte a = 0xF0 \<and> byte_in 0x90 0xBF b \<or>
                             byte_in 0xF1 0xF3 a \<and> is_cont b \<or>
                             byte a = 0xF4 \<and> byte_in 0x80 0x8F b) \<and> is_cont c \<and> is_cont d
                         then 4 else 0))))"

lemma utf8_len_le: "utf8_len s \<le> length s"
  by (auto simp: utf8_len_def split: list.splits)

function utf8_valid :: "bytes \<Rightarrow> bool" where
  "utf8_valid s \<longleftrightarrow>
     (if s = [] then True
      else if utf8_len s = 0 then False
      else utf8_valid (drop (utf8_len s) s))"
  by pat_completeness auto
termination
proof (relation "measure length")
  show "wf (measure length)" by simp
  fix s :: bytes
  assume "s \<noteq> []" and "utf8_len s \<noteq> 0"
  with utf8_len_le [of s] show "(drop (utf8_len s) s, s) \<in> measure length"
    by auto
qed

declare utf8_valid.simps [simp del]

lemma utf8_valid_Nil [simp]: "utf8_valid []"
  by (simp add: utf8_valid.simps)

lemma utf8_valid_ascii_Cons: "byte c < 128 \<Longrightarrow> utf8_valid (c # s) = utf8_valid s"
  by (subst utf8_valid.simps) (simp add: utf8_len_def)

lemma utf8_valid_ascii: "is_ascii s \<Longrightarrow> utf8_valid s"
  by (induction s) (auto simp: is_ascii_def utf8_valid_ascii_Cons)


section \<open>Parsing and printing unsigned decimals\<close>

definition digit_value :: "char \<Rightarrow> nat" where
  "digit_value c = byte c - 48"

definition digits_value :: "string \<Rightarrow> nat" where
  "digits_value s = foldl (\<lambda>n c. 10 * n + digit_value c) 0 s"

text \<open>
  \<open>str::parse\<close> for an unsigned type with \<open>m\<close> values: a leading plus sign is accepted, an empty
  digit string and any other byte are refused, and so is a value out of range.
\<close>

definition parse_unsigned :: "nat \<Rightarrow> string \<Rightarrow> nat option" where
  "parse_unsigned m s =
     (let ds = (case s of c # r \<Rightarrow> if c = CHR ''+'' then r else s | [] \<Rightarrow> [])
      in if ds \<noteq> [] \<and> list_all is_ascii_digit ds \<and> digits_value ds < m
         then Some (digits_value ds) else None)"

definition parse_u8 :: "string \<Rightarrow> nat option" where
  "parse_u8 = parse_unsigned (2 ^ 8)"

definition parse_u16 :: "string \<Rightarrow> nat option" where
  "parse_u16 = parse_unsigned (2 ^ 16)"

definition parse_u64 :: "string \<Rightarrow> nat option" where
  "parse_u64 = parse_unsigned (2 ^ 64)"

fun dec_string :: "nat \<Rightarrow> string" where
  "dec_string n =
     (if n < 10 then [char_of (48 + n)] else dec_string (n div 10) @ [char_of (48 + n mod 10)])"

declare dec_string.simps [simp del]

lemma digits_value_append_one: "digits_value (s @ [c]) = 10 * digits_value s + digit_value c"
  by (simp add: digits_value_def)

lemma is_ascii_digit_char_of: "n < (10::nat) \<Longrightarrow> is_ascii_digit (char_of (48 + n))"
  by (simp add: is_ascii_digit_def byte_in_def)

lemma digit_value_char_of: "n < (10::nat) \<Longrightarrow> digit_value (char_of (48 + n)) = n"
  by (simp add: digit_value_def)

lemma dec_string_digits: "list_all is_ascii_digit (dec_string n)"
proof (induction n rule: dec_string.induct)
  case (1 n)
  show ?case
    by (cases "n < 10")
      (use "1.IH" in \<open>simp_all add: dec_string.simps [of n] is_ascii_digit_char_of\<close>)
qed

lemma dec_string_neq_Nil [simp]: "dec_string n \<noteq> []"
  by (subst dec_string.simps) simp

lemma digits_value_dec_string [simp]: "digits_value (dec_string n) = n"
proof (induction n rule: dec_string.induct)
  case (1 n)
  show ?case
  proof (cases "n < 10")
    case True
    then show ?thesis
      by (simp add: dec_string.simps [of n] digits_value_def digit_value_char_of)
  next
    case False
    with "1.IH" have "digits_value (dec_string (n div 10)) = n div 10" by simp
    with False show ?thesis
      by (simp add: dec_string.simps [of n] digits_value_append_one digit_value_char_of)
  qed
qed

lemma is_ascii_digit_not_plus: "is_ascii_digit c \<Longrightarrow> c \<noteq> CHR ''+''"
  by (auto simp: is_ascii_digit_def byte_in_def byte_def)

lemma parse_unsigned_digits:
  "s \<noteq> [] \<Longrightarrow> list_all is_ascii_digit s \<Longrightarrow>
   parse_unsigned m s = (if digits_value s < m then Some (digits_value s) else None)"
  by (cases s) (auto simp: parse_unsigned_def is_ascii_digit_not_plus)

lemma parse_unsigned_dec_string: "n < m \<Longrightarrow> parse_unsigned m (dec_string n) = Some n"
  by (simp add: parse_unsigned_digits dec_string_digits)

lemma parse_unsigned_less: "parse_unsigned m s = Some n \<Longrightarrow> n < m"
  by (auto simp: parse_unsigned_def Let_def split: if_splits)

end
