(* ===== verification/Http_Lib.thy ===== *)
theory Http_Lib
  imports Rust_Str
begin

text \<open>
  \<open>crates/fluxheim-protocol/src/lib.rs\<close>: HTTP tokens, route method and prefix matching, the
  \<open>Via\<close> value and the prefix test of response rewriting.
\<close>

section \<open>Definitions\<close>

definition http_token_byte :: "char \<Rightarrow> bool" where
  "http_token_byte c \<longleftrightarrow>
     byte c \<in> {0x21, 0x23, 0x24, 0x25, 0x26, 0x27, 0x2A, 0x2B, 0x2D, 0x2E, 0x5E, 0x5F, 0x60, 0x7C, 0x7E}
     \<or> byte_in 0x30 0x39 c \<or> byte_in 0x41 0x5A c \<or> byte_in 0x61 0x7A c"

definition http_token_valid :: "string \<Rightarrow> bool" where
  "http_token_valid value \<longleftrightarrow> value \<noteq> [] \<and> list_all http_token_byte value"

definition http_upgrade_token_valid :: "string \<Rightarrow> bool" where
  "http_upgrade_token_valid value = http_token_valid value"

definition route_method_matches :: "string list \<Rightarrow> string \<Rightarrow> bool" where
  "route_method_matches methods m \<longleftrightarrow>
     methods = [] \<or> list_ex (\<lambda>configured. eq_ignore_ascii_case configured m) methods"

definition route_prefix_matches_path :: "string \<Rightarrow> string \<Rightarrow> bool" where
  "route_prefix_matches_path p path =
     (case strip_prefix p path of
        None \<Rightarrow> False
      | Some sfx \<Rightarrow>
          p = ''/'' \<or> ends_with ''/'' p \<or> sfx = [] \<or> starts_with ''/'' sfx)"

definition route_strip_prefix_suffix :: "string \<Rightarrow> string \<Rightarrow> string option" where
  "route_strip_prefix_suffix p path =
     (case strip_prefix p path of
        None \<Rightarrow> None
      | Some sfx \<Rightarrow>
          if p = ''/'' \<or> ends_with ''/'' p \<or> sfx = [] \<or> starts_with ''/'' sfx
          then Some sfx else None)"

definition FLUXHEIM_VIA_VALUE :: string where
  "FLUXHEIM_VIA_VALUE = ''1.1 fluxheim''"

definition append_fluxheim_via_value :: "string \<Rightarrow> string" where
  "append_fluxheim_via_value existing =
     (if trim existing = [] then FLUXHEIM_VIA_VALUE
      else trim existing @ '', '' @ FLUXHEIM_VIA_VALUE)"

definition authority_delim :: "char \<Rightarrow> bool" where
  "authority_delim c \<longleftrightarrow> c = CHR ''/'' \<or> c = CHR ''?'' \<or> c = CHR ''#''"

definition response_rewrite_prefix_requires_authority_boundary :: "string \<Rightarrow> bool" where
  "response_rewrite_prefix_requires_authority_boundary p =
     (case (case strip_prefix ''http://'' p of
              Some r \<Rightarrow> Some r
            | None \<Rightarrow> strip_prefix ''https://'' p) of
        None \<Rightarrow> False
      | Some authority_and_path \<Rightarrow> \<not> list_ex authority_delim authority_and_path)"

definition response_rewrite_prefix_matches :: "string \<Rightarrow> string \<Rightarrow> bool" where
  "response_rewrite_prefix_matches value p =
     (if \<not> starts_with p value then False
      else if \<not> response_rewrite_prefix_requires_authority_boundary p then True
      else (case drop (length p) value of [] \<Rightarrow> True | c # _ \<Rightarrow> authority_delim c))"


section \<open>Tokens\<close>

lemma http_token_byte_range: "http_token_byte c \<Longrightarrow> 33 \<le> byte c \<and> byte c < 127"
  by (auto simp: http_token_byte_def byte_in_def)

lemma http_token_valid_no_ws: "http_token_valid s \<Longrightarrow> no_ws s"
  by (auto simp: http_token_valid_def no_ws_def list_all_iff dest!: http_token_byte_range)

lemma http_token_valid_trim [simp]: "http_token_valid s \<Longrightarrow> trim s = s"
  by (simp add: http_token_valid_no_ws trim_no_ws)

lemma http_token_no_sep:
  assumes "http_token_valid s" and "c \<in> set s"
  shows "c \<noteq> CHR '':''" "c \<noteq> CHR '',''" "c \<noteq> CHR '' ''" "c \<noteq> CR" "c \<noteq> LF" "c \<noteq> CHR ''/''"
    "c \<noteq> CHR '';''" "c \<noteq> CHR ''=''"
proof -
  from assms have "http_token_byte c"
    by (auto simp: http_token_valid_def list_all_iff)
  then show "c \<noteq> CHR '':''" "c \<noteq> CHR '',''" "c \<noteq> CHR '' ''" "c \<noteq> CR" "c \<noteq> LF" "c \<noteq> CHR ''/''"
    "c \<noteq> CHR '';''" "c \<noteq> CHR ''=''"
    by (auto simp: http_token_byte_def byte_in_def byte_def CR_def LF_def)
qed

lemma http_token_valid_append:
  "s \<noteq> [] \<Longrightarrow> t \<noteq> [] \<Longrightarrow> http_token_valid (s @ t) \<longleftrightarrow> http_token_valid s \<and> http_token_valid t"
  by (auto simp: http_token_valid_def)


section \<open>Route prefixes\<close>

lemma ends_with_slash: "ends_with ''/'' p \<longleftrightarrow> p \<noteq> [] \<and> last p = CHR ''/''"
  by (cases p rule: rev_cases) (auto simp: ends_with_def starts_with_def)

lemma starts_with_slash: "starts_with ''/'' s \<longleftrightarrow> (\<exists>r. s = CHR ''/'' # r)"
  by (auto simp: starts_with_iff prefix_def)

lemma route_prefix_matches_iff:
  "route_prefix_matches_path p path \<longleftrightarrow>
     (\<exists>r. path = p @ r \<and> ((p \<noteq> [] \<and> last p = CHR ''/'') \<or> r = [] \<or> hd r = CHR ''/''))"
proof (cases "strip_prefix p path")
  case None
  then have "\<nexists>r. path = p @ r"
    using strip_prefix_append by force
  with None show ?thesis
    by (simp add: route_prefix_matches_path_def)
next
  case (Some r)
  then have r: "path = p @ r"
    by (simp add: strip_prefix_eq_Some)
  show ?thesis
    using Some r
    by (cases r) (auto simp: route_prefix_matches_path_def ends_with_slash starts_with_slash)
qed

text \<open>
  A prefix with no trailing slash matches exactly the paths whose segments, read off the slashes,
  extend the prefix's segments: \<open>/repo\<close> never matches \<open>/repository\<close>.
\<close>

lemma split_on_append_slash:
  "split_on d (p @ d # r) = split_on d p @ split_on d r"
proof (induction p)
  case Nil
  then show ?case by simp
next
  case (Cons c p)
  then show ?case
    by (cases "split_on d p") auto
qed

lemma split_on_extend_neq:
  assumes "r \<noteq> []" and "hd r \<noteq> d"
  shows "\<not> prefix (split_on d p) (split_on d (p @ r))"
proof (induction p)
  case Nil
  from assms obtain c r' where r: "r = c # r'" "c \<noteq> d" by (cases r) auto
  then show ?case
    by (cases "split_on d r'") (auto simp: prefix_def)
next
  case (Cons c p)
  show ?case
  proof (cases "c = d")
    case True
    with Cons show ?thesis by simp
  next
    case False
    obtain y ys where y: "split_on d p = y # ys" by (cases "split_on d p") auto
    obtain z zs where z: "split_on d (p @ r) = z # zs" by (cases "split_on d (p @ r)") auto
    from Cons False y z show ?thesis by auto
  qed
qed

lemma route_prefix_segments:
  assumes "p = [] \<or> last p \<noteq> CHR ''/''"
  shows "route_prefix_matches_path p path \<longleftrightarrow>
    prefix p path \<and> prefix (split_on (CHR ''/'') p) (split_on (CHR ''/'') path)"
proof
  assume "route_prefix_matches_path p path"
  with assms obtain r where r: "path = p @ r" "r = [] \<or> hd r = CHR ''/''"
    by (auto simp: route_prefix_matches_iff)
  then show "prefix p path \<and> prefix (split_on (CHR ''/'') p) (split_on (CHR ''/'') path)"
    by (cases r) (auto simp: split_on_append_slash)
next
  assume *: "prefix p path \<and> prefix (split_on (CHR ''/'') p) (split_on (CHR ''/'') path)"
  then obtain r where r: "path = p @ r" by (auto simp: prefix_def)
  have "r = [] \<or> hd r = CHR ''/''"
    using split_on_extend_neq [of r "CHR ''/''" p] * r by auto
  with r show "route_prefix_matches_path p path"
    by (auto simp: route_prefix_matches_iff)
qed

lemma route_strip_prefix_suffix_eq:
  "route_strip_prefix_suffix p path = Some sfx \<longleftrightarrow>
     route_prefix_matches_path p path \<and> path = p @ sfx"
  by (auto simp: route_strip_prefix_suffix_def route_prefix_matches_path_def strip_prefix_eq_Some
      split: option.splits if_splits)


section \<open>Response rewriting\<close>

text \<open>The authority of an absolute URL: what stands between the scheme and the first delimiter.\<close>

definition url_authority :: "string \<Rightarrow> string option" where
  "url_authority url =
     (case (case strip_prefix ''http://'' url of
              Some r \<Rightarrow> Some r
            | None \<Rightarrow> strip_prefix ''https://'' url) of
        None \<Rightarrow> None
      | Some r \<Rightarrow> Some (takeWhile (\<lambda>c. \<not> authority_delim c) r))"

lemma requires_boundary_cases:
  assumes "response_rewrite_prefix_requires_authority_boundary p"
  shows "\<exists>scheme auth. (scheme = ''http://'' \<or> scheme = ''https://'') \<and> p = scheme @ auth
    \<and> \<not> list_ex authority_delim auth"
proof (cases "strip_prefix ''http://'' p")
  case None
  with assms obtain auth where "p = ''https://'' @ auth" "\<not> list_ex authority_delim auth"
    by (auto simp: response_rewrite_prefix_requires_authority_boundary_def strip_prefix_eq_Some
        simp del: strip_prefix.simps append.simps split: option.splits)
  then show ?thesis by blast
next
  case (Some auth)
  with assms have "p = ''http://'' @ auth" "\<not> list_ex authority_delim auth"
    by (auto simp: response_rewrite_prefix_requires_authority_boundary_def strip_prefix_eq_Some
        simp del: strip_prefix.simps append.simps)
  then show ?thesis by blast
qed

lemma url_authority_append:
  assumes "scheme = ''http://'' \<or> scheme = ''https://''"
  shows "url_authority (scheme @ r) = Some (takeWhile (\<lambda>c. \<not> authority_delim c) r)"
  using assms by (auto simp: url_authority_def)

lemma takeWhile_authority:
  assumes "\<not> list_ex authority_delim auth" and "r = [] \<or> authority_delim (hd r)"
  shows "takeWhile (\<lambda>c. \<not> authority_delim c) (auth @ r) = auth"
  using assms by (cases r) (auto simp: list_ex_iff takeWhile_append)

lemma rewrite_match_keeps_authority:
  assumes "response_rewrite_prefix_requires_authority_boundary p"
    and "response_rewrite_prefix_matches value p"
  shows "url_authority value = url_authority p"
proof -
  from assms(1) obtain scheme auth where s: "scheme = ''http://'' \<or> scheme = ''https://''"
    and p: "p = scheme @ auth" and nd: "\<not> list_ex authority_delim auth"
    by (blast dest: requires_boundary_cases)
  from assms obtain r where v: "value = p @ r" and r: "r = [] \<or> authority_delim (hd r)"
    by (auto simp: response_rewrite_prefix_matches_def starts_with_iff prefix_def
        split: list.splits if_splits)
  from nd r have "takeWhile (\<lambda>c. \<not> authority_delim c) (auth @ r) = auth"
    by (rule takeWhile_authority)
  moreover from nd have "takeWhile (\<lambda>c. \<not> authority_delim c) auth = auth"
    using takeWhile_authority [of auth "[]"] by simp
  ultimately show ?thesis
    using url_authority_append [OF s, of "auth @ r"] url_authority_append [OF s, of auth]
    by (simp only: v p append_assoc)
qed

end
