(* ===== verification/Http1_Types.thy ===== *)
theory Http1_Types
  imports Http_Lib
begin

text \<open>
  The data of \<open>crates/fluxheim-protocol/src/http1.rs\<close> that the HTTP/1 components share: limits,
  versions, header fields, body framing and the parse errors.
\<close>

record http1_head_limits =
  max_head_bytes :: nat
  max_header_count :: nat
  max_header_line_bytes :: nat
  max_start_line_bytes :: nat

definition DEFAULT_HTTP1_MAX_HEAD_BYTES :: nat where
  "DEFAULT_HTTP1_MAX_HEAD_BYTES = 64 * 1024"

definition DEFAULT_HTTP1_MAX_HEADER_COUNT :: nat where
  "DEFAULT_HTTP1_MAX_HEADER_COUNT = 100"

definition DEFAULT_HTTP1_MAX_HEADER_LINE_BYTES :: nat where
  "DEFAULT_HTTP1_MAX_HEADER_LINE_BYTES = 8 * 1024"

definition DEFAULT_HTTP1_MAX_START_LINE_BYTES :: nat where
  "DEFAULT_HTTP1_MAX_START_LINE_BYTES = 8 * 1024"

definition default_head_limits :: http1_head_limits where
  "default_head_limits =
     \<lparr>max_head_bytes = DEFAULT_HTTP1_MAX_HEAD_BYTES,
      max_header_count = DEFAULT_HTTP1_MAX_HEADER_COUNT,
      max_header_line_bytes = DEFAULT_HTTP1_MAX_HEADER_LINE_BYTES,
      max_start_line_bytes = DEFAULT_HTTP1_MAX_START_LINE_BYTES\<rparr>"

datatype http1_version = Http10 | Http11

record http1_header =
  hdr_name :: string
  hdr_value :: string

datatype http1_parse_error =
    BodyTooLarge
  | ChunkTooLarge
  | ChunkMetadataTooLarge
  | ConflictingBodyFraming
  | ConflictingAuthority
  | DuplicateContentLength
  | DuplicateHost
  | HeaderCountExceeded
  | HeaderLineTooLong
  | HeadTooLarge
  | InvalidConnection
  | InvalidContentLength
  | InvalidChunk
  | InvalidChunkSize
  | InvalidAuthority
  | InvalidHost
  | InvalidHeaderName
  | InvalidHeaderValue
  | InvalidRequestLine
  | InvalidRequestTarget
  | InvalidResponseLine
  | InvalidStatusCode
  | InvalidUtf8
  | MissingHost
  | EncodedBodyTooLarge
  | ObsoleteLineFolding
  | OutputTooSmall
  | StartLineTooLong
  | UnsupportedTransferEncoding
  | UnsupportedVersion

type_synonym 'a h1result = "('a, http1_parse_error) result"

datatype http1_body_framing = NoBody | ContentLength nat | Chunked

text \<open>The byte class \<open>0x00..=0x08 | 0x0a..=0x1f | 0x7f..=0xff\<close> that field values must not have.\<close>

definition field_value_forbidden :: "char \<Rightarrow> bool" where
  "field_value_forbidden c \<longleftrightarrow> byte_in 0 8 c \<or> byte_in 0x0A 0x1F c \<or> byte_in 0x7F 0xFF c"

lemma field_value_allowed_iff: "\<not> field_value_forbidden c \<longleftrightarrow> byte c = 9 \<or> 32 \<le> byte c \<and> byte c < 127"
  by (auto simp: field_value_forbidden_def byte_in_def)

definition http1_header_new :: "string \<Rightarrow> string \<Rightarrow> http1_header h1result" where
  "http1_header_new name value =
     (if \<not> http_token_valid name then Err InvalidHeaderName
      else if list_ex field_value_forbidden value then Err InvalidHeaderValue
      else Ok \<lparr>hdr_name = name, hdr_value = trim value\<rparr>)"

definition parse_header_line :: "string \<Rightarrow> http1_header h1result" where
  "parse_header_line line =
     (case split_once (CHR '':'') line of
        None \<Rightarrow> Err InvalidHeaderName
      | Some (name, value) \<Rightarrow> http1_header_new name value)"

text \<open>
  A well-formed field: a token name and a value of visible ASCII, spaces and tabs. No field can
  carry CR, LF or NUL, so a field re-serialised for an upstream stays one line.
\<close>

definition header_wf :: "http1_header \<Rightarrow> bool" where
  "header_wf h \<longleftrightarrow> http_token_valid (hdr_name h) \<and>
     list_all (\<lambda>c. \<not> field_value_forbidden c) (hdr_value h)"

lemma http1_header_new_wf: "http1_header_new n v = Ok h \<Longrightarrow> header_wf h"
  using set_trim [of v]
  by (auto simp: http1_header_new_def header_wf_def list_all_iff list_ex_iff split: if_splits)

lemma parse_header_line_wf: "parse_header_line l = Ok h \<Longrightarrow> header_wf h"
  by (auto simp: parse_header_line_def dest: http1_header_new_wf split: option.splits)

lemma header_wf_bytes:
  assumes "header_wf h" and "c \<in> set (hdr_name h) \<or> c \<in> set (hdr_value h)"
  shows "byte c = 9 \<or> 32 \<le> byte c \<and> byte c < 127"
  using assms
  by (auto simp: header_wf_def http_token_valid_def list_all_iff field_value_allowed_iff
      dest!: http_token_byte_range)

end
