(* ===== verification/Http1_Chunked.thy ===== *)
theory Http1_Chunked
  imports Http1_Types
begin

text \<open>
  The incremental chunked-body decoder, \<open>crates/fluxheim-protocol/src/http1_chunked.rs\<close>.

  The decoder is the record of the source's fields. Its loop body is \<open>process_step\<close> and its loop
  \<open>process\<close>; a slice expression out of range, which panics in Rust, is the outcome \<open>Panicked\<close> of
  a step and \<open>None\<close> of the loop. The output sink of the trait \<open>Http1ChunkSink\<close> is an argument:
  the function that appends bytes to it. Whether the allocator grants a buffer of a given length
  (\<open>Vec::try_reserve\<close>) is the argument \<open>alloc\<close>.
\<close>

section \<open>Limits, state and sinks\<close>

record http1_chunk_limits =
  max_chunk_size :: nat
  max_body_bytes :: nat
  max_encoded_bytes :: nat
  max_chunk_line_bytes :: nat
  max_chunk_count :: nat
  max_chunk_extension_bytes :: nat

definition DEFAULT_HTTP1_MAX_BODY_BYTES :: nat where
  "DEFAULT_HTTP1_MAX_BODY_BYTES = 64 * 1024 * 1024"
definition DEFAULT_HTTP1_MAX_CHUNK_SIZE :: nat where
  "DEFAULT_HTTP1_MAX_CHUNK_SIZE = 1024 * 1024"
definition DEFAULT_HTTP1_MAX_ENCODED_BYTES :: nat where
  "DEFAULT_HTTP1_MAX_ENCODED_BYTES = 72 * 1024 * 1024"
definition DEFAULT_HTTP1_MAX_CHUNK_LINE_BYTES :: nat where
  "DEFAULT_HTTP1_MAX_CHUNK_LINE_BYTES = 8 * 1024"
definition DEFAULT_HTTP1_MAX_CHUNK_COUNT :: nat where
  "DEFAULT_HTTP1_MAX_CHUNK_COUNT = 1024 * 1024"
definition DEFAULT_HTTP1_MAX_CHUNK_EXTENSION_BYTES :: nat where
  "DEFAULT_HTTP1_MAX_CHUNK_EXTENSION_BYTES = 64 * 1024"
definition HTTP1_CHUNK_INPUT_FRAGMENT_BYTES :: nat where
  "HTTP1_CHUNK_INPUT_FRAGMENT_BYTES = 8 * 1024"
definition HTTP1_CHUNK_COMPACT_THRESHOLD_BYTES :: nat where
  "HTTP1_CHUNK_COMPACT_THRESHOLD_BYTES = 4 * 1024"

definition default_chunk_limits :: http1_chunk_limits where
  "default_chunk_limits =
     \<lparr>max_chunk_size = DEFAULT_HTTP1_MAX_CHUNK_SIZE,
      max_body_bytes = DEFAULT_HTTP1_MAX_BODY_BYTES,
      max_encoded_bytes = DEFAULT_HTTP1_MAX_ENCODED_BYTES,
      max_chunk_line_bytes = DEFAULT_HTTP1_MAX_CHUNK_LINE_BYTES,
      max_chunk_count = DEFAULT_HTTP1_MAX_CHUNK_COUNT,
      max_chunk_extension_bytes = DEFAULT_HTTP1_MAX_CHUNK_EXTENSION_BYTES\<rparr>"

definition with_max_body_bytes :: "http1_chunk_limits \<Rightarrow> nat \<Rightarrow> http1_chunk_limits" where
  "with_max_body_bytes lim n =
     lim\<lparr>max_body_bytes := n,
         max_encoded_bytes :=
           saturating_add n (DEFAULT_HTTP1_MAX_ENCODED_BYTES - DEFAULT_HTTP1_MAX_BODY_BYTES)\<rparr>"

record http1_chunked_decode =
  cd_decoded_len :: nat
  cd_consumed_len :: nat

datatype decode_state = SizeLine | ChunkData nat | BodyEnd

record decoder =
  dec_limits :: http1_chunk_limits
  dec_input :: bytes
  dec_input_offset :: nat
  dec_line_scan_offset :: nat
  dec_compacted_len :: nat
  dec_received_len :: nat
  dec_decoded_len :: nat
  dec_chunk_count :: nat
  dec_extension_bytes :: nat
  dec_state :: decode_state
  dec_complete :: "http1_chunked_decode option"

definition decoder_new :: "http1_chunk_limits \<Rightarrow> decoder" where
  "decoder_new lim =
     \<lparr>dec_limits = lim, dec_input = [], dec_input_offset = 0, dec_line_scan_offset = 0,
      dec_compacted_len = 0, dec_received_len = 0, dec_decoded_len = 0, dec_chunk_count = 0,
      dec_extension_bytes = 0, dec_state = SizeLine, dec_complete = None\<rparr>"

type_synonym 's sink_append = "'s \<Rightarrow> bytes \<Rightarrow> 's h1result"

text \<open>\<open>impl Http1ChunkSink for Vec<u8>\<close>.\<close>

definition vec_append :: "(nat \<Rightarrow> bool) \<Rightarrow> bytes sink_append" where
  "vec_append alloc out bs =
     (if alloc (length out + length bs) then Ok (out @ bs) else Err BodyTooLarge)"

text \<open>\<open>Http1SliceChunkSink\<close>: a buffer of fixed length and the number of bytes written.\<close>

record slice_sink =
  ss_output :: bytes
  ss_len :: nat

definition slice_append :: "slice_sink sink_append" where
  "slice_append s bs =
     (case checked_add (ss_len s) (length bs) of
        None \<Rightarrow> Err OutputTooSmall
      | Some e \<Rightarrow>
          if e \<le> length (ss_output s)
          then Ok \<lparr>ss_output = take (ss_len s) (ss_output s) @ bs @ drop e (ss_output s), ss_len = e\<rparr>
          else Err OutputTooSmall)"


section \<open>Lines, sizes and extensions\<close>

fun find_crlf_in :: "bytes \<Rightarrow> nat option" where
  "find_crlf_in (c # d # s) =
     (if c = CR \<and> d = LF then Some 0 else map_option Suc (find_crlf_in (d # s)))"
| "find_crlf_in s = None"

definition find_crlf :: "bytes \<Rightarrow> nat \<Rightarrow> nat option" where
  "find_crlf inp offset = map_option (\<lambda>i. offset + i) (find_crlf_in (drop offset inp))"

definition hex_value :: "char \<Rightarrow> nat option" where
  "hex_value c =
     (if byte_in 0x30 0x39 c then Some (byte c - 0x30)
      else if byte_in 0x61 0x66 c then Some (byte c - 0x61 + 10)
      else if byte_in 0x41 0x46 c then Some (byte c - 0x41 + 10)
      else None)"

fun parse_chunk_size :: "nat \<Rightarrow> nat \<Rightarrow> bytes \<Rightarrow> nat h1result" where
  "parse_chunk_size max_size n [] = Ok n"
| "parse_chunk_size max_size n (c # cs) =
     and_then (ok_or (hex_value c) InvalidChunkSize) (\<lambda>v.
     and_then (ok_or (case checked_mul n 16 of None \<Rightarrow> None | Some m \<Rightarrow> checked_add m v)
                 ChunkTooLarge) (\<lambda>n'.
       if n' > max_size then Err ChunkTooLarge else parse_chunk_size max_size n' cs))"

definition ext_forbidden :: "char \<Rightarrow> bool" where
  "ext_forbidden c \<longleftrightarrow> byte_in 0 0x1F c \<or> byte_in 0x7F 0xFF c"

fun scan_quoted :: "bool \<Rightarrow> bytes \<Rightarrow> bytes h1result" where
  "scan_quoted escaped [] = Err InvalidChunk"
| "scan_quoted escaped (c # cs) =
     (if escaped then
        (if ext_forbidden c then Err InvalidChunk else scan_quoted False cs)
      else if c = CHR 0x5C then scan_quoted True cs
      else if c = CHR 0x22 then Ok cs
      else if ext_forbidden c then Err InvalidChunk
      else scan_quoted False cs)"

lemma scan_quoted_length: "scan_quoted b s = Ok r \<Longrightarrow> length r < length s"
  by (induction b s rule: scan_quoted.induct) (auto split: if_splits)

definition len_until :: "(char \<Rightarrow> bool) \<Rightarrow> bytes \<Rightarrow> nat" where
  "len_until p s = (case position p s of Some i \<Rightarrow> i | None \<Rightarrow> length s)"

text \<open>The value of an extension, after the equals sign: the rest of the line after it.\<close>

definition extension_value :: "bytes \<Rightarrow> bytes h1result" where
  "extension_value e =
     (if e \<noteq> [] \<and> hd e = CHR 0x22 then
        and_then (scan_quoted False (tl e)) (\<lambda>r.
          if r \<noteq> [] \<and> hd r \<noteq> CHR '';'' then Err InvalidChunk else Ok r)
      else
        let n = len_until (\<lambda>c. c = CHR '';'') e
        in if \<not> utf8_valid (take n e) then Err InvalidChunk
           else if \<not> http_token_valid (take n e) then Err InvalidChunk
           else Ok (drop n e))"

lemma extension_value_length: "extension_value e = Ok r \<Longrightarrow> length r \<le> length e"
  by (auto simp: extension_value_def Let_def result_simps dest!: scan_quoted_length
      split: if_splits)

definition single_token_byte :: "char \<Rightarrow> bool" where
  "single_token_byte c = http_token_valid (if utf8_valid [c] then [c] else [])"

function validate_chunk_extensions :: "bytes \<Rightarrow> unit h1result" where
  "validate_chunk_extensions ext =
     (if ext = [] then Ok ()
      else if hd ext \<noteq> CHR '';'' then Err InvalidChunk
      else
        let e = tl ext; n = len_until (\<lambda>c. c = CHR '';'' \<or> c = CHR ''='') e
        in if n = 0 \<or> \<not> list_all single_token_byte (take n e) then Err InvalidChunk
           else
             let e' = drop n e
             in if e' = [] \<or> hd e' \<noteq> CHR ''='' then validate_chunk_extensions e'
                else and_then (extension_value (tl e')) validate_chunk_extensions)"
  by pat_completeness auto
termination
proof (relation "measure length", goal_cases)
  case 1
  then show ?case by simp
next
  case (2 ext e n e')
  then show ?case by (cases ext) auto
next
  case (3 ext e n e' r)
  then show ?case
    by (cases ext) (auto dest!: extension_value_length)
qed

declare validate_chunk_extensions.simps [simp del]

definition parse_chunk_size_line :: "bytes \<Rightarrow> nat \<Rightarrow> (nat \<times> nat) h1result" where
  "parse_chunk_size_line line max_size =
     (let size_end = len_until (\<lambda>c. c = CHR '';'') line
      in if size_end = 0 then Err InvalidChunkSize
         else
           and_then (parse_chunk_size max_size 0 (take size_end line)) (\<lambda>n.
           and_then (validate_chunk_extensions (drop size_end line)) (\<lambda>_.
             Ok (n, length line - size_end))))"


section \<open>The decoder's loop\<close>

datatype 's step =
    Continue decoder 's
  | Return decoder 's "http1_chunked_decode option h1result"
  | Panicked

text \<open>\<open>compact_consumed\<close>; \<open>None\<close> is the panic of \<open>copy_within\<close> on a range out of the buffer.\<close>

definition compact_consumed :: "decoder \<Rightarrow> (decoder \<times> unit h1result) option" where
  "compact_consumed d =
     (let off = dec_input_offset d; len = length (dec_input d)
      in if off = 0 then Some (d, Ok ())
         else if off \<noteq> len \<and> (off < HTTP1_CHUNK_COMPACT_THRESHOLD_BYTES \<or> off < len div 2)
           then Some (d, Ok ())
         else (case checked_add (dec_compacted_len d) off of
             None \<Rightarrow> Some (d, Err EncodedBodyTooLarge)
           | Some c \<Rightarrow>
               if len < off then None
               else Some (d\<lparr>dec_compacted_len := c, dec_input := drop off (dec_input d),
                            dec_input_offset := 0,
                            dec_line_scan_offset := saturating_sub (dec_line_scan_offset d) off\<rparr>,
                          Ok ())))"

definition pending_line_len :: "bytes \<Rightarrow> nat" where
  "pending_line_len p = saturating_sub (length p) (if p \<noteq> [] \<and> last p = CR then 1 else 0)"

text \<open>The state \<open>Size\<close> when no CRLF is buffered.\<close>

definition size_wait_step :: "decoder \<Rightarrow> 's \<Rightarrow> 's step" where
  "size_wait_step d s =
     (if dec_input_offset d > length (dec_input d) then Return d s (Err InvalidChunk)
      else if pending_line_len (drop (dec_input_offset d) (dec_input d))
              > max_chunk_line_bytes (dec_limits d)
        then Return d s (Err ChunkMetadataTooLarge)
      else Return (d\<lparr>dec_line_scan_offset :=
                        max (saturating_sub (length (dec_input d)) 1) (dec_input_offset d)\<rparr>)
             s (Ok None))"

text \<open>The state \<open>Size\<close> when the line ends at \<open>line_end\<close>.\<close>

definition size_line_step :: "decoder \<Rightarrow> 's \<Rightarrow> nat \<Rightarrow> 's step" where
  "size_line_step d s line_end =
     (if line_end < dec_input_offset d then Panicked
      else
        let lim = dec_limits d;
            line = take (line_end - dec_input_offset d) (drop (dec_input_offset d) (dec_input d))
        in if length line > max_chunk_line_bytes lim then Return d s (Err ChunkMetadataTooLarge)
        else (case checked_add (dec_chunk_count d) 1 of
          None \<Rightarrow> Return d s (Err ChunkMetadataTooLarge)
        | Some cnt \<Rightarrow>
            let d1 = d\<lparr>dec_chunk_count := cnt\<rparr>
            in if cnt > max_chunk_count lim then Return d1 s (Err ChunkMetadataTooLarge)
            else (case parse_chunk_size_line line (max_chunk_size lim) of
              Err e \<Rightarrow> Return d1 s (Err e)
            | Ok (n, ext) \<Rightarrow>
                (case checked_add (dec_extension_bytes d) ext of
                  None \<Rightarrow> Return d1 s (Err ChunkMetadataTooLarge)
                | Some eb \<Rightarrow>
                    let d2 = d1\<lparr>dec_extension_bytes := eb\<rparr>
                    in if eb > max_chunk_extension_bytes lim
                       then Return d2 s (Err ChunkMetadataTooLarge)
                    else (case checked_add line_end 2 of
                      None \<Rightarrow> Return d2 s (Err InvalidChunk)
                    | Some off \<Rightarrow>
                        Continue (d2\<lparr>dec_input_offset := off, dec_line_scan_offset := off,
                                     dec_state := (if n = 0 then BodyEnd else ChunkData n)\<rparr>) s)))))"

definition size_step :: "decoder \<Rightarrow> 's \<Rightarrow> 's step" where
  "size_step d s =
     (case find_crlf (dec_input d) (dec_line_scan_offset d) of
        None \<Rightarrow> size_wait_step d s
      | Some line_end \<Rightarrow> size_line_step d s line_end)"

definition data_step :: "'s sink_append \<Rightarrow> decoder \<Rightarrow> 's \<Rightarrow> nat \<Rightarrow> 's step" where
  "data_step snk d s n =
     (case checked_add (dec_input_offset d) n of
        None \<Rightarrow> Return d s (Err ChunkTooLarge)
      | Some data_end \<Rightarrow>
        (case checked_add data_end 2 of
          None \<Rightarrow> Return d s (Err InvalidChunk)
        | Some chunk_end \<Rightarrow>
          if chunk_end > length (dec_input d) then Return d s (Ok None)
          else if take 2 (drop data_end (dec_input d)) \<noteq> [CR, LF] then Return d s (Err InvalidChunk)
          else (case checked_add (dec_decoded_len d) n of
            None \<Rightarrow> Return d s (Err BodyTooLarge)
          | Some output_end \<Rightarrow>
            if output_end > max_body_bytes (dec_limits d) then Return d s (Err BodyTooLarge)
            else (case snk s (take n (drop (dec_input_offset d) (dec_input d))) of
              Err e \<Rightarrow> Return d s (Err e)
            | Ok s' \<Rightarrow>
              (case compact_consumed (d\<lparr>dec_decoded_len := output_end, dec_input_offset := chunk_end,
                                        dec_line_scan_offset := chunk_end,
                                        dec_state := SizeLine\<rparr>) of
                None \<Rightarrow> Panicked
              | Some (d', Err e) \<Rightarrow> Return d' s' (Err e)
              | Some (d', Ok _) \<Rightarrow> Continue d' s')))))"

definition end_step :: "decoder \<Rightarrow> 's \<Rightarrow> 's step" where
  "end_step d s =
     (let off = dec_input_offset d; e = saturating_add off 2
      in if \<not> (off \<le> e \<and> e \<le> length (dec_input d)) then Return d s (Ok None)
         else if take (e - off) (drop off (dec_input d)) \<noteq> [CR, LF]
           then Return d s (Err InvalidChunk)
         else (case (case checked_add (dec_compacted_len d) off of
                       None \<Rightarrow> None | Some v \<Rightarrow> checked_add v 2) of
             None \<Rightarrow> Return d s (Err InvalidChunk)
           | Some consumed \<Rightarrow>
               let c = \<lparr>cd_decoded_len = dec_decoded_len d, cd_consumed_len = consumed\<rparr>
               in Return (d\<lparr>dec_complete := Some c\<rparr>) s (Ok (Some c))))"

definition process_step :: "'s sink_append \<Rightarrow> decoder \<Rightarrow> 's \<Rightarrow> 's step" where
  "process_step snk d s =
     (case dec_state d of
        SizeLine \<Rightarrow> size_step d s
      | ChunkData n \<Rightarrow> data_step snk d s n
      | BodyEnd \<Rightarrow> end_step d s)"


lemma find_crlf_in_bound: "find_crlf_in p = Some n \<Longrightarrow> n + 2 \<le> length p"
  by (induction p arbitrary: n rule: find_crlf_in.induct) (auto split: if_splits)

lemma find_crlf_bound: "find_crlf p o1 = Some n \<Longrightarrow> o1 \<le> n \<and> n + 2 \<le> length p"
  by (auto simp: find_crlf_def dest!: find_crlf_in_bound)

definition unread :: "decoder \<Rightarrow> nat" where
  "unread d = length (dec_input d) - dec_input_offset d"

lemma size_step_unread: "size_step d s = Continue d' s' \<Longrightarrow> unread d' < unread d"
  by (auto simp: size_step_def size_wait_step_def size_line_step_def Let_def unread_def result_simps
      dest!: find_crlf_bound split: option.splits if_splits result.splits)

lemma compact_unread: "compact_consumed d = Some (d', r) \<Longrightarrow> unread d' = unread d"
  by (auto simp: compact_consumed_def Let_def unread_def split: if_splits option.splits)

lemma data_step_unread: "data_step snk d s n = Continue d' s' \<Longrightarrow> unread d' < unread d"
  by (auto simp: data_step_def result_simps dest!: compact_unread
      split: option.splits if_splits result.splits) (auto simp: unread_def)

lemma end_step_returns: "end_step d s \<noteq> Continue d' s'"
  by (auto simp: end_step_def Let_def split: option.splits)

lemma process_step_unread: "process_step snk d s = Continue d' s' \<Longrightarrow> unread d' < unread d"
  by (auto simp: process_step_def end_step_returns dest: size_step_unread data_step_unread
      split: decode_state.splits)

text \<open>
  \<open>process\<close>: the loop. It always ends, since every step that continues consumes input; \<open>None\<close> is
  a panic.
\<close>

function process ::
  "'s sink_append \<Rightarrow> decoder \<Rightarrow> 's \<Rightarrow> (decoder \<times> 's \<times> http1_chunked_decode option h1result) option"
where
  "process snk d s =
     (case process_step snk d s of
        Panicked \<Rightarrow> None
      | Return d' s' r \<Rightarrow> Some (d', s', r)
      | Continue d' s' \<Rightarrow> process snk d' s')"
  by pat_completeness auto
termination
  by (relation "measure (\<lambda>(snk, d, s). unread d)") (auto dest: process_step_unread)

declare process.simps [simp del]

text \<open>\<open>push_with_sink\<close>: its loop over the fragments of the input, and the whole function.\<close>

function push_fragments ::
  "(nat \<Rightarrow> bool) \<Rightarrow> 's sink_append \<Rightarrow> decoder \<Rightarrow> bytes \<Rightarrow> 's \<Rightarrow>
   (decoder \<times> 's \<times> http1_chunked_decode option h1result) option"
where
  "push_fragments alloc snk d chunk s =
     (if chunk = [] then Some (d, s, Ok None)
      else
        let remaining_limit =
              saturating_sub (max_encoded_bytes (dec_limits d)) (dec_received_len d)
        in if remaining_limit = 0 then Some (d, s, Err EncodedBodyTooLarge)
        else
          let fragment_len =
                min (min (length chunk) HTTP1_CHUNK_INPUT_FRAGMENT_BYTES) remaining_limit
          in if \<not> alloc (length (dec_input d) + fragment_len)
             then Some (d, s, Err EncodedBodyTooLarge)
          else
            let d1 = d\<lparr>dec_input := dec_input d @ take fragment_len chunk\<rparr>
            in (case checked_add (dec_received_len d) fragment_len of
              None \<Rightarrow> Some (d1, s, Err EncodedBodyTooLarge)
            | Some received \<Rightarrow>
                (case process snk (d1\<lparr>dec_received_len := received\<rparr>) s of
                   Some (d2, s2, Ok None) \<Rightarrow>
                     push_fragments alloc snk d2 (drop fragment_len chunk) s2
                 | r \<Rightarrow> r)))"
  by pat_completeness auto
termination
  by (relation "measure (\<lambda>(alloc, snk, d, chunk, s). length chunk)")
    (auto simp: HTTP1_CHUNK_INPUT_FRAGMENT_BYTES_def)

declare push_fragments.simps [simp del]

definition push_with_sink ::
  "(nat \<Rightarrow> bool) \<Rightarrow> 's sink_append \<Rightarrow> decoder \<Rightarrow> bytes \<Rightarrow> 's \<Rightarrow>
   (decoder \<times> 's \<times> http1_chunked_decode option h1result) option"
where
  "push_with_sink alloc snk d chunk s =
     (case dec_complete d of
        Some c \<Rightarrow> Some (d, s, Ok (Some c))
      | None \<Rightarrow>
          if chunk = [] then process snk d s else push_fragments alloc snk d chunk s)"

text \<open>\<open>push_to\<close> for a sink of any type, given its length function; \<open>push\<close> is its case for \<open>Vec\<close>.\<close>

definition push_to ::
  "(nat \<Rightarrow> bool) \<Rightarrow> 's sink_append \<Rightarrow> ('s \<Rightarrow> nat) \<Rightarrow> decoder \<Rightarrow> bytes \<Rightarrow> 's \<Rightarrow>
   (decoder \<times> 's \<times> http1_chunked_decode option h1result) option"
where
  "push_to alloc snk sink_len d chunk s =
     (if sink_len s \<noteq> dec_decoded_len d then Some (d, s, Err InvalidChunk)
      else push_with_sink alloc snk d chunk s)"

definition push ::
  "(nat \<Rightarrow> bool) \<Rightarrow> decoder \<Rightarrow> bytes \<Rightarrow> bytes \<Rightarrow>
   (decoder \<times> bytes \<times> http1_chunked_decode option h1result) option"
where
  "push alloc d chunk output =
     (if length output \<noteq> dec_decoded_len d then Some (d, output, Err InvalidChunk)
      else push_with_sink alloc (vec_append alloc) d chunk output)"

definition buffered_len :: "decoder \<Rightarrow> nat" where
  "buffered_len d = length (dec_input d)"

definition decode_http1_chunked_body ::
  "(nat \<Rightarrow> bool) \<Rightarrow> bytes \<Rightarrow> bytes \<Rightarrow> http1_chunk_limits \<Rightarrow>
   (slice_sink \<times> http1_chunked_decode option h1result) option"
where
  "decode_http1_chunked_body alloc inp output lim =
     map_option (\<lambda>(d, s, r). (s, r))
       (push_with_sink alloc slice_append (decoder_new lim) inp \<lparr>ss_output = output, ss_len = 0\<rparr>)"

end
