(* ===== verification/Http1_Chunked_Spec.thy ===== *)
theory Http1_Chunked_Spec
  imports Http1_Chunked
begin

text \<open>
  What the chunked decoder promises. \<open>spec_step\<close> and \<open>spec_run\<close> are a decoder that reads the
  encoded bytes as one list: no buffer offsets, no scan position, no compaction, no fragments. The
  lemmas show that the decoder of the source is a refinement of it, that \<open>spec_run\<close> on a prefix
  of the input never has to be revised, and hence that the result does not depend on how the
  network cut the input into pieces.
\<close>

section \<open>The abstract decoder\<close>

record astate =
  a_state :: decode_state
  a_decoded :: nat
  a_count :: nat
  a_ext :: nat
  a_consumed :: nat

datatype 's spec_step =
    SCont astate 's bytes
  | SWait
  | SFail http1_parse_error
  | SDone http1_chunked_decode

definition spec_size :: "http1_chunk_limits \<Rightarrow> astate \<Rightarrow> 's \<Rightarrow> bytes \<Rightarrow> 's spec_step" where
  "spec_size lim a s p =
     (case find_crlf_in p of
        None \<Rightarrow> if pending_line_len p > max_chunk_line_bytes lim then SFail ChunkMetadataTooLarge
                else SWait
      | Some n \<Rightarrow>
          if n > max_chunk_line_bytes lim \<or> a_count a + 1 > max_chunk_count lim
          then SFail ChunkMetadataTooLarge
          else (case parse_chunk_size_line (take n p) (max_chunk_size lim) of
             Err e \<Rightarrow> SFail e
           | Ok (k, ext) \<Rightarrow>
               if a_ext a + ext > max_chunk_extension_bytes lim then SFail ChunkMetadataTooLarge
               else SCont (a\<lparr>a_state := (if k = 0 then BodyEnd else ChunkData k),
                             a_count := a_count a + 1, a_ext := a_ext a + ext,
                             a_consumed := a_consumed a + n + 2\<rparr>) s (drop (n + 2) p)))"

definition spec_data ::
  "http1_chunk_limits \<Rightarrow> 's sink_append \<Rightarrow> astate \<Rightarrow> 's \<Rightarrow> nat \<Rightarrow> bytes \<Rightarrow> 's spec_step" where
  "spec_data lim snk a s k p =
     (if length p < k + 2 then SWait
      else if take 2 (drop k p) \<noteq> [CR, LF] then SFail InvalidChunk
      else if a_decoded a + k > max_body_bytes lim then SFail BodyTooLarge
      else (case snk s (take k p) of
         Err e \<Rightarrow> SFail e
       | Ok s' \<Rightarrow> SCont (a\<lparr>a_state := SizeLine, a_decoded := a_decoded a + k,
                            a_consumed := a_consumed a + k + 2\<rparr>) s' (drop (k + 2) p)))"

definition spec_end :: "astate \<Rightarrow> bytes \<Rightarrow> 's spec_step" where
  "spec_end a p =
     (if length p < 2 then SWait
      else if take 2 p \<noteq> [CR, LF] then SFail InvalidChunk
      else SDone \<lparr>cd_decoded_len = a_decoded a, cd_consumed_len = a_consumed a + 2\<rparr>)"

definition spec_step ::
  "http1_chunk_limits \<Rightarrow> 's sink_append \<Rightarrow> astate \<Rightarrow> 's \<Rightarrow> bytes \<Rightarrow> 's spec_step" where
  "spec_step lim snk a s p =
     (case a_state a of
        SizeLine \<Rightarrow> spec_size lim a s p
      | ChunkData k \<Rightarrow> spec_data lim snk a s k p
      | BodyEnd \<Rightarrow> spec_end a p)"

datatype outcome =
    More astate bytes
  | Failed http1_parse_error
  | Finished http1_chunked_decode

lemma spec_step_length: "spec_step lim snk a s p = SCont a' s' p' \<Longrightarrow> length p' < length p"
  by (auto simp: spec_step_def spec_size_def spec_data_def spec_end_def
      dest!: find_crlf_in_bound split: decode_state.splits option.splits if_splits result.splits)

function spec_run ::
  "http1_chunk_limits \<Rightarrow> 's sink_append \<Rightarrow> astate \<Rightarrow> 's \<Rightarrow> bytes \<Rightarrow> 's \<times> outcome" where
  "spec_run lim snk a s p =
     (case spec_step lim snk a s p of
        SCont a' s' p' \<Rightarrow> spec_run lim snk a' s' p'
      | SWait \<Rightarrow> (s, More a p)
      | SFail e \<Rightarrow> (s, Failed e)
      | SDone c \<Rightarrow> (s, Finished c))"
  by pat_completeness auto
termination
  by (relation "measure (\<lambda>(lim, snk, a, s, p). length p)") (auto dest: spec_step_length)

declare spec_run.simps [simp del]

definition a_init :: astate where
  "a_init = \<lparr>a_state = SizeLine, a_decoded = 0, a_count = 0, a_ext = 0, a_consumed = 0\<rparr>"


section \<open>Reading a prefix never has to be revised\<close>

lemma find_crlf_in_append: "find_crlf_in p = Some n \<Longrightarrow> find_crlf_in (p @ q) = Some n"
  by (induction p arbitrary: n rule: find_crlf_in.induct) (auto split: if_splits)

lemma find_crlf_in_Some_iff:
  "find_crlf_in p = Some n \<longleftrightarrow>
     n + 1 < length p \<and> p ! n = CR \<and> p ! (n + 1) = LF \<and>
     (\<forall>i < n. \<not> (p ! i = CR \<and> p ! (i + 1) = LF))"
proof (induction p arbitrary: n rule: find_crlf_in.induct)
  case (1 c d s)
  show ?case
  proof (cases n)
    case 0
    then show ?thesis by auto
  next
    case (Suc m)
    then show ?thesis
      using "1.IH" [of m] by (auto simp: All_less_Suc2)
  qed
qed auto

lemma find_crlf_in_None_iff:
  "find_crlf_in p = None \<longleftrightarrow> (\<forall>i. i + 1 < length p \<longrightarrow> \<not> (p ! i = CR \<and> p ! (i + 1) = LF))"
proof (induction p rule: find_crlf_in.induct)
  case (1 c d s)
  show ?case
  proof (cases "c = CR \<and> d = LF")
    case True
    then show ?thesis by force
  next
    case False
    have "(\<forall>i. i + 1 < length (c # d # s) \<longrightarrow> \<not> ((c # d # s) ! i = CR \<and> (c # d # s) ! (i + 1) = LF))
      \<longleftrightarrow> (\<forall>i. i + 1 < length (d # s) \<longrightarrow> \<not> ((d # s) ! i = CR \<and> (d # s) ! (i + 1) = LF))"
      (is "?L \<longleftrightarrow> ?R")
    proof
      assume ?L
      then show ?R by (metis Suc_eq_plus1 Suc_less_eq length_Cons nth_Cons_Suc)
    next
      assume r: ?R
      show ?L
      proof (intro allI impI)
        fix i
        assume "i + 1 < length (c # d # s)"
        with r False show "\<not> ((c # d # s) ! i = CR \<and> (c # d # s) ! (i + 1) = LF)"
          by (cases i) auto
      qed
    qed
    with 1 False show ?thesis by auto
  qed
qed auto

lemma find_crlf_in_late:
  assumes "find_crlf_in p = None" and "find_crlf_in (p @ q) = Some n"
  shows "pending_line_len p \<le> n"
proof (rule ccontr)
  assume "\<not> ?thesis"
  then have n: "n < length p" "n < length p - (if p \<noteq> [] \<and> last p = CR then 1 else 0)"
    by (auto simp: pending_line_len_def)
  from assms(2) have cr: "(p @ q) ! n = CR" "(p @ q) ! (n + 1) = LF"
    by (auto simp: find_crlf_in_Some_iff)
  show False
  proof (cases "n + 1 < length p")
    case True
    with cr assms(1) show False
      by (auto simp: find_crlf_in_None_iff nth_append)
  next
    case False
    with n have "n = length p - 1" "p \<noteq> []" by auto
    with cr n have "last p = CR" by (simp add: last_conv_nth nth_append)
    with n \<open>n = length p - 1\<close> \<open>p \<noteq> []\<close> show False by simp
  qed
qed

lemma pending_line_len_append: "pending_line_len p \<le> pending_line_len (p @ q)"
  by (cases q rule: rev_cases) (auto simp: pending_line_len_def)

lemma spec_size_append:
  "spec_size lim a s p = SCont a' s' p' \<Longrightarrow> spec_size lim a s (p @ q) = SCont a' s' (p' @ q)"
  "spec_size lim a s p = SFail e \<Longrightarrow> spec_size lim a s (p @ q) = (SFail e :: 's spec_step)"
  "spec_size lim a s p \<noteq> SDone c"
proof -
  show "spec_size lim a s p = SCont a' s' p' \<Longrightarrow> spec_size lim a s (p @ q) = SCont a' s' (p' @ q)"
    by (auto simp: spec_size_def find_crlf_in_append dest!: find_crlf_in_bound
        split: option.splits if_splits result.splits)
  show "spec_size lim a s p = SFail e \<Longrightarrow> spec_size lim a s (p @ q) = (SFail e :: 's spec_step)"
    using find_crlf_in_late [of p q] pending_line_len_append [of p q]
    by (force simp: spec_size_def find_crlf_in_append dest: find_crlf_in_bound
        split: option.splits if_splits result.splits)
  show "spec_size lim a s p \<noteq> SDone c"
    by (auto simp: spec_size_def split: option.splits if_splits result.splits)
qed


lemma spec_data_append:
  "spec_data lim snk a s k p = SCont a' s' p' \<Longrightarrow> spec_data lim snk a s k (p @ q) = SCont a' s' (p' @ q)"
  "spec_data lim snk a s k p = SFail e \<Longrightarrow> spec_data lim snk a s k (p @ q) = SFail e"
  "spec_data lim snk a s k p \<noteq> SDone c"
  by (auto simp: spec_data_def split: if_splits result.splits)

lemma spec_end_append:
  "spec_end a p \<noteq> SCont a' s' p'"
  "spec_end a p = SFail e \<Longrightarrow> spec_end a (p @ q) = SFail e"
  "spec_end a p = SDone c \<Longrightarrow> spec_end a (p @ q) = SDone c"
  by (auto simp: spec_end_def split: if_splits)

lemma spec_step_append:
  "spec_step lim snk a s p = SCont a' s' p' \<Longrightarrow> spec_step lim snk a s (p @ q) = SCont a' s' (p' @ q)"
  "spec_step lim snk a s p = SFail e \<Longrightarrow> spec_step lim snk a s (p @ q) = SFail e"
  "spec_step lim snk a s p = SDone c \<Longrightarrow> spec_step lim snk a s (p @ q) = SDone c"
  by (auto simp: spec_step_def spec_size_append spec_data_append spec_end_append
      split: decode_state.splits)

lemma spec_run_append:
  "spec_run lim snk a s (p @ q) =
     (case spec_run lim snk a s p of
        (s', More a' p') \<Rightarrow> spec_run lim snk a' s' (p' @ q)
      | r \<Rightarrow> r)"
proof (induction lim snk a s p rule: spec_run.induct)
  case (1 lim snk a s p)
  show ?case
  proof (cases "spec_step lim snk a s p")
    case (SCont a' s' p')
    then have "spec_step lim snk a s (p @ q) = SCont a' s' (p' @ q)"
      by (rule spec_step_append)
    with SCont 1 [OF SCont] show ?thesis
      by (simp add: spec_run.simps [of lim snk a s])
  next
    case SWait
    then show ?thesis
      by (simp add: spec_run.simps [of lim snk a s p])
  next
    case (SFail e)
    then have "spec_step lim snk a s (p @ q) = SFail e"
      by (rule spec_step_append)
    with SFail show ?thesis
      by (simp add: spec_run.simps [of lim snk a s])
  next
    case (SDone c)
    then have "spec_step lim snk a s (p @ q) = SDone c"
      by (rule spec_step_append)
    with SDone show ?thesis
      by (simp add: spec_run.simps [of lim snk a s])
  qed
qed

lemma spec_run_More_fixed:
  "spec_run lim snk a s p = (s', More a' p') \<Longrightarrow> spec_step lim snk a' s' p' = SWait"
proof (induction lim snk a s p rule: spec_run.induct)
  case (1 lim snk a s p)
  then show ?case
    by (cases "spec_step lim snk a s p") (auto simp: spec_run.simps [of lim snk a s p])
qed


section \<open>The decoder's invariant\<close>

definition dec_abs :: "decoder \<Rightarrow> astate" where
  "dec_abs d =
     \<lparr>a_state = dec_state d, a_decoded = dec_decoded_len d, a_count = dec_chunk_count d,
      a_ext = dec_extension_bytes d, a_consumed = dec_compacted_len d + dec_input_offset d\<rparr>"

definition dec_pending :: "decoder \<Rightarrow> bytes" where
  "dec_pending d = drop (dec_input_offset d) (dec_input d)"

text \<open>Limits for which no offset of the decoder can overflow: sums of them stay below \<open>2 ^ 64\<close>.\<close>

definition limits_ok :: "http1_chunk_limits \<Rightarrow> bool" where
  "limits_ok lim \<longleftrightarrow>
     max_encoded_bytes lim + max_chunk_size lim + 2 \<le> u64_max \<and>
     max_chunk_count lim < u64_max \<and> max_body_bytes lim + max_chunk_size lim \<le> u64_max \<and>
     max_chunk_extension_bytes lim + max_encoded_bytes lim \<le> u64_max"

definition scanned :: "decoder \<Rightarrow> bool" where
  "scanned d \<longleftrightarrow>
     (\<forall>i. dec_input_offset d \<le> i \<longrightarrow> i < dec_line_scan_offset d \<longrightarrow>
        i + 1 < length (dec_input d) \<and> \<not> (dec_input d ! i = CR \<and> dec_input d ! (i + 1) = LF))"

definition dec_inv :: "decoder \<Rightarrow> bool" where
  "dec_inv d \<longleftrightarrow>
     dec_input_offset d \<le> dec_line_scan_offset d \<and>
     dec_line_scan_offset d \<le> length (dec_input d) \<and>
     scanned d \<and>
     dec_compacted_len d + length (dec_input d) = dec_received_len d \<and>
     dec_received_len d \<le> max_encoded_bytes (dec_limits d) \<and>
     dec_decoded_len d \<le> max_body_bytes (dec_limits d) \<and>
     dec_chunk_count d \<le> max_chunk_count (dec_limits d) \<and>
     dec_extension_bytes d \<le> max_chunk_extension_bytes (dec_limits d) \<and>
     (\<forall>k. dec_state d = ChunkData k \<longrightarrow> 0 < k \<and> k \<le> max_chunk_size (dec_limits d)) \<and>
     dec_decoded_len d \<le> dec_compacted_len d + dec_input_offset d"

lemma dec_inv_new: "dec_inv (decoder_new lim)"
  by (simp add: dec_inv_def decoder_new_def scanned_def)

lemma dec_abs_new [simp]: "dec_abs (decoder_new lim) = a_init" "dec_pending (decoder_new lim) = []"
  by (simp_all add: dec_abs_def decoder_new_def a_init_def dec_pending_def)

lemma find_crlf_in_drop:
  assumes "\<forall>i < k. i + 1 < length p \<and> \<not> (p ! i = CR \<and> p ! (i + 1) = LF)"
  shows "find_crlf_in p = map_option (\<lambda>i. k + i) (find_crlf_in (drop k p))"
  using assms
proof (induction k arbitrary: p)
  case 0
  then show ?case by (simp add: option.map_ident)
next
  case (Suc k)
  then have "0 + 1 < length p" and hd: "\<not> (p ! 0 = CR \<and> p ! (0 + 1) = LF)"
    by blast+
  then obtain c d q where p: "p = c # d # q"
    by (cases p rule: find_crlf_in.cases) auto
  have "\<forall>i < k. i + 1 < length (d # q) \<and> \<not> ((d # q) ! i = CR \<and> (d # q) ! (i + 1) = LF)"
    using Suc.prems p by (auto simp: All_less_Suc2)
  from Suc.IH [OF this] hd p show ?case
    by (auto simp: option.map_comp comp_def)
qed

lemma scanned_find_crlf:
  assumes "dec_inv d"
  shows "find_crlf (dec_input d) (dec_line_scan_offset d) =
    map_option (\<lambda>i. dec_input_offset d + i) (find_crlf_in (dec_pending d))"
proof -
  let ?k = "dec_line_scan_offset d - dec_input_offset d"
  have sc: "dec_input_offset d \<le> dec_line_scan_offset d"
    and s: "scanned d"
    using assms by (auto simp: dec_inv_def)
  have "\<forall>i < ?k. i + 1 < length (dec_pending d) \<and>
      \<not> (dec_pending d ! i = CR \<and> dec_pending d ! (i + 1) = LF)"
  proof (intro allI impI)
    fix i
    assume "i < ?k"
    with s [unfolded scanned_def, rule_format, of "dec_input_offset d + i"]
    have "dec_input_offset d + i + 1 < length (dec_input d)"
      and "\<not> (dec_input d ! (dec_input_offset d + i) = CR \<and> dec_input d ! (dec_input_offset d + i + 1) = LF)"
      by auto
    then show "i + 1 < length (dec_pending d) \<and>
      \<not> (dec_pending d ! i = CR \<and> dec_pending d ! (i + 1) = LF)"
      by (auto simp: dec_pending_def add.assoc)
  qed
  from find_crlf_in_drop [OF this] sc show ?thesis
    by (simp add: find_crlf_def dec_pending_def option.map_comp comp_def)
qed


section \<open>Refinement\<close>

definition same_frame :: "decoder \<Rightarrow> decoder \<Rightarrow> bool" where
  "same_frame d d' \<longleftrightarrow> dec_limits d' = dec_limits d \<and> dec_received_len d' = dec_received_len d \<and>
     dec_complete d' = dec_complete d"

definition same_abs :: "decoder \<Rightarrow> decoder \<Rightarrow> bool" where
  "same_abs d d' \<longleftrightarrow> dec_inv d' \<and> dec_abs d' = dec_abs d \<and> dec_pending d' = dec_pending d \<and> same_frame d d'"

definition step_refines :: "decoder \<Rightarrow> 's \<Rightarrow> 's spec_step \<Rightarrow> 's step \<Rightarrow> bool" where
  "step_refines d s sp st =
     (case sp of
        SCont a' s' p' \<Rightarrow>
          \<exists>d'. st = Continue d' s' \<and> dec_inv d' \<and> dec_abs d' = a' \<and> dec_pending d' = p' \<and> same_frame d d'
      | SWait \<Rightarrow> \<exists>d'. st = Return d' s (Ok None) \<and> same_abs d d'
      | SFail e \<Rightarrow> \<exists>d'. st = Return d' s (Err e)
      | SDone c \<Rightarrow> \<exists>d'. st = Return d' s (Ok (Some c)) \<and> dec_complete d' = Some c)"

lemma parse_chunk_size_le: "parse_chunk_size m n cs = Ok k \<Longrightarrow> n \<le> m \<Longrightarrow> k \<le> m"
  by (induction cs arbitrary: n) (auto simp: result_simps split: if_splits option.splits)

lemma parse_chunk_size_line_bounds:
  "parse_chunk_size_line line m = Ok (k, ext) \<Longrightarrow> k \<le> m \<and> ext \<le> length line"
  by (auto simp: parse_chunk_size_line_def Let_def result_simps dest: parse_chunk_size_le
      split: if_splits)

lemma size_wait_refines:
  assumes inv: "dec_inv d" and none: "find_crlf_in (dec_pending d) = None"
  shows "step_refines d s (spec_size (dec_limits d) a s (dec_pending d)) (size_wait_step d s)"
proof -
  let ?d' = "d\<lparr>dec_line_scan_offset := max (length (dec_input d) - 1) (dec_input_offset d)\<rparr>"
  have "scanned ?d'"
    unfolding scanned_def
  proof (intro allI impI)
    fix i
    assume i: "dec_input_offset ?d' \<le> i" "i < dec_line_scan_offset ?d'"
    then have "(i - dec_input_offset d) + 1 < length (dec_pending d)"
      by (auto simp: dec_pending_def)
    with none have "\<not> (dec_pending d ! (i - dec_input_offset d) = CR \<and>
        dec_pending d ! ((i - dec_input_offset d) + 1) = LF)"
      by (simp only: find_crlf_in_None_iff) blast
    with i show "i + 1 < length (dec_input ?d') \<and>
        \<not> (dec_input ?d' ! i = CR \<and> dec_input ?d' ! (i + 1) = LF)"
      by (auto simp: dec_pending_def)
  qed
  with inv have "same_abs d ?d'"
    by (auto simp: same_abs_def dec_inv_def dec_abs_def dec_pending_def same_frame_def)
  moreover have "\<not> dec_input_offset d > length (dec_input d)"
    using inv by (auto simp: dec_inv_def)
  ultimately show ?thesis
    using none by (auto simp: step_refines_def spec_size_def size_wait_step_def dec_pending_def)
qed

lemma size_line_refines:
  assumes inv: "dec_inv d" and lim: "limits_ok (dec_limits d)" and st: "dec_state d = SizeLine"
    and n: "find_crlf_in (dec_pending d) = Some n"
  shows "step_refines d s (spec_size (dec_limits d) (dec_abs d) s (dec_pending d))
    (size_line_step d s (dec_input_offset d + n))"
proof -
  let ?off = "dec_input_offset d" and ?lim = "dec_limits d"
  let ?line = "take n (dec_pending d)"
  from n have nb: "n + 2 \<le> length (dec_pending d)" by (rule find_crlf_in_bound)
  then have len: "?off + n + 2 \<le> length (dec_input d)"
    by (auto simp: dec_pending_def)
  have enc: "length (dec_input d) \<le> max_encoded_bytes ?lim"
    using inv by (auto simp: dec_inv_def)
  have off2: "checked_add (?off + n) 2 = Some (?off + n + 2)"
    using len enc lim by (auto simp: checked_add_def limits_ok_def)
  have cnt: "checked_add (dec_chunk_count d) 1 = Some (dec_chunk_count d + 1)"
    using inv lim by (auto simp: checked_add_def limits_ok_def dec_inv_def)
  have ll: "length ?line = n" using nb by simp
  show ?thesis
  proof (cases "n > max_chunk_line_bytes ?lim \<or> dec_chunk_count d + 1 > max_chunk_count ?lim")
    case True
    then show ?thesis
      using n ll cnt
      by (auto simp: step_refines_def spec_size_def size_line_step_def Let_def dec_abs_def dec_pending_def)
  next
    case False
    show ?thesis
    proof (cases "parse_chunk_size_line ?line (max_chunk_size ?lim)")
      case (Err e)
      with False n ll cnt show ?thesis
        by (auto simp: step_refines_def spec_size_def size_line_step_def Let_def dec_abs_def dec_pending_def)
    next
      case (Ok r)
      obtain k ext where r: "r = (k, ext)" by (cases r)
      with Ok ll have b: "k \<le> max_chunk_size ?lim" "ext \<le> n"
        using parse_chunk_size_line_bounds [of ?line "max_chunk_size ?lim" k ext] by auto
      have eb: "checked_add (dec_extension_bytes d) ext = Some (dec_extension_bytes d + ext)"
        using b len enc inv lim by (auto simp: checked_add_def limits_ok_def dec_inv_def)
      let ?d' = "d\<lparr>dec_chunk_count := dec_chunk_count d + 1,
        dec_extension_bytes := dec_extension_bytes d + ext, dec_input_offset := ?off + n + 2,
        dec_line_scan_offset := ?off + n + 2, dec_state := (if k = 0 then BodyEnd else ChunkData k)\<rparr>"
      have res: "size_line_step d s (?off + n) =
        (if dec_extension_bytes d + ext > max_chunk_extension_bytes ?lim
         then Return (d\<lparr>dec_chunk_count := dec_chunk_count d + 1,
                        dec_extension_bytes := dec_extension_bytes d + ext\<rparr>) s (Err ChunkMetadataTooLarge)
         else Continue ?d' s)"
        using False ll cnt off2 eb Ok r
        by (auto simp: size_line_step_def Let_def dec_pending_def)
      have inv': "dec_inv ?d'" if "dec_extension_bytes d + ext \<le> max_chunk_extension_bytes ?lim"
        using inv len b False that by (auto simp: dec_inv_def scanned_def)
      have "dec_pending ?d' = drop (n + 2) (dec_pending d)"
        by (simp add: dec_pending_def add.commute add.left_commute)
      with inv' res False n Ok r st show ?thesis
        by (auto simp: step_refines_def spec_size_def dec_abs_def same_frame_def)
    qed
  qed
qed

lemma size_step_refines:
  assumes "dec_inv d" and "limits_ok (dec_limits d)" and "dec_state d = SizeLine"
  shows "step_refines d s (spec_size (dec_limits d) (dec_abs d) s (dec_pending d)) (size_step d s)"
  using assms size_wait_refines [of d s "dec_abs d"] size_line_refines [of d _ s]
  by (cases "find_crlf_in (dec_pending d)") (auto simp: size_step_def scanned_find_crlf)

lemma compact_consumed_refines:
  assumes inv: "dec_inv d" and lim: "limits_ok (dec_limits d)"
  shows "\<exists>d'. compact_consumed d = Some (d', Ok ()) \<and> same_abs d d'"
proof -
  let ?off = "dec_input_offset d"
  let ?d' = "d\<lparr>dec_compacted_len := dec_compacted_len d + ?off, dec_input := drop ?off (dec_input d),
    dec_input_offset := 0, dec_line_scan_offset := dec_line_scan_offset d - ?off\<rparr>"
  have off: "?off \<le> length (dec_input d)" and "dec_compacted_len d + ?off \<le> u64_max"
    using inv lim by (auto simp: dec_inv_def limits_ok_def)
  then have ca: "checked_add (dec_compacted_len d) ?off = Some (dec_compacted_len d + ?off)"
    by (simp add: checked_add_def)
  have "scanned ?d'"
    unfolding scanned_def
  proof (intro allI impI)
    fix i
    assume "dec_input_offset ?d' \<le> i" "i < dec_line_scan_offset ?d'"
    with inv have "?off + i + 1 < length (dec_input d) \<and>
        \<not> (dec_input d ! (?off + i) = CR \<and> dec_input d ! (?off + i + 1) = LF)"
      by (auto simp: dec_inv_def scanned_def)
    with off show "i + 1 < length (dec_input ?d') \<and>
        \<not> (dec_input ?d' ! i = CR \<and> dec_input ?d' ! (i + 1) = LF)"
      by (auto simp: add.assoc)
  qed
  with inv off have "same_abs d ?d'"
    by (auto simp: same_abs_def dec_inv_def dec_abs_def dec_pending_def same_frame_def)
  moreover from inv have "same_abs d d"
    by (simp add: same_abs_def same_frame_def)
  ultimately show ?thesis
    using ca off by (auto simp: compact_consumed_def Let_def)
qed


lemma data_step_refines:
  assumes inv: "dec_inv d" and lim: "limits_ok (dec_limits d)" and st: "dec_state d = ChunkData k"
  shows "step_refines d s (spec_data (dec_limits d) snk (dec_abs d) s k (dec_pending d))
    (data_step snk d s k)"
proof -
  let ?off = "dec_input_offset d" and ?lim = "dec_limits d"
  have k: "0 < k" "k \<le> max_chunk_size ?lim" using inv st by (auto simp: dec_inv_def)
  have off: "?off \<le> length (dec_input d)" "length (dec_input d) \<le> max_encoded_bytes ?lim"
    using inv by (auto simp: dec_inv_def)
  have c1: "checked_add ?off k = Some (?off + k)" "checked_add (?off + k) 2 = Some (?off + k + 2)"
    using k off lim by (auto simp: checked_add_def limits_ok_def)
  have c2: "checked_add (dec_decoded_len d) k = Some (dec_decoded_len d + k)"
    using k inv lim by (auto simp: checked_add_def limits_ok_def dec_inv_def)
  have len: "length (dec_pending d) < k + 2 \<longleftrightarrow> ?off + k + 2 > length (dec_input d)"
    using off by (auto simp: dec_pending_def)
  have crlf: "take 2 (drop (?off + k) (dec_input d)) = take 2 (drop k (dec_pending d))"
    by (simp add: dec_pending_def add.commute)
  have self: "same_abs d d" using inv by (simp add: same_abs_def same_frame_def)
  consider (wait) "length (dec_pending d) < k + 2"
    | (bad) "\<not> length (dec_pending d) < k + 2"
        "take 2 (drop k (dec_pending d)) \<noteq> [CR, LF] \<or> dec_decoded_len d + k > max_body_bytes ?lim
         \<or> (\<exists>e. snk s (take k (dec_pending d)) = Err e)"
    | (good) s' where "\<not> length (dec_pending d) < k + 2"
        "take 2 (drop k (dec_pending d)) = [CR, LF]" "dec_decoded_len d + k \<le> max_body_bytes ?lim"
        "snk s (take k (dec_pending d)) = Ok s'"
    by (metis result.exhaust not_less)
  then show ?thesis
  proof cases
    case wait
    with c1 len self show ?thesis
      by (auto simp: step_refines_def spec_data_def data_step_def)
  next
    case bad
    with c1 c2 len crlf show ?thesis
      by (auto simp: step_refines_def spec_data_def data_step_def dec_abs_def
          simp flip: dec_pending_def split: result.splits)
  next
    case good
    let ?d1 = "d\<lparr>dec_decoded_len := dec_decoded_len d + k, dec_input_offset := ?off + k + 2,
      dec_line_scan_offset := ?off + k + 2, dec_state := SizeLine\<rparr>"
    have "dec_inv ?d1"
      using inv good len by (auto simp: dec_inv_def scanned_def)
    then obtain d' where d': "compact_consumed ?d1 = Some (d', Ok ())" "same_abs ?d1 d'"
      using compact_consumed_refines [of ?d1] lim by auto
    have "data_step snk d s k = Continue d' s'"
      using good c1 c2 len crlf d'(1) by (simp add: data_step_def flip: dec_pending_def)
    moreover have "dec_pending ?d1 = drop (k + 2) (dec_pending d)"
      by (simp add: dec_pending_def add.commute add.left_commute)
    ultimately show ?thesis
      using good d'(2)
      by (auto simp: step_refines_def spec_data_def same_abs_def same_frame_def dec_abs_def)
  qed
qed

lemma end_step_refines:
  assumes inv: "dec_inv d" and lim: "limits_ok (dec_limits d)"
  shows "step_refines d s (spec_end (dec_abs d) (dec_pending d)) (end_step d s)"
proof -
  have off: "dec_input_offset d + 2 \<le> u64_max"
    and c: "dec_compacted_len d + length (dec_input d) + 2 \<le> u64_max"
    using inv lim by (auto simp: dec_inv_def limits_ok_def)
  have self: "same_abs d d" using inv by (simp add: same_abs_def same_frame_def)
  have sat: "saturating_add (dec_input_offset d) 2 = dec_input_offset d + 2"
    using off by (rule saturating_add_exact)
  show ?thesis
  proof (cases "dec_input_offset d + 2 \<le> length (dec_input d)")
    case True
    with c have "checked_add (dec_compacted_len d) (dec_input_offset d) =
        Some (dec_compacted_len d + dec_input_offset d)"
      "checked_add (dec_compacted_len d + dec_input_offset d) 2 =
        Some (dec_compacted_len d + dec_input_offset d + 2)"
      by (auto simp: checked_add_def)
    with True sat show ?thesis
      by (auto simp: step_refines_def spec_end_def end_step_def Let_def dec_pending_def dec_abs_def)
  next
    case False
    with self sat show ?thesis
      by (auto simp: step_refines_def spec_end_def end_step_def Let_def dec_pending_def)
  qed
qed

lemma process_step_refines:
  assumes "dec_inv d" and "limits_ok (dec_limits d)"
  shows "step_refines d s (spec_step (dec_limits d) snk (dec_abs d) s (dec_pending d))
    (process_step snk d s)"
  using assms size_step_refines [of d s] data_step_refines [of d _ s snk] end_step_refines [of d s]
  by (cases "dec_state d") (auto simp: process_step_def spec_step_def dec_abs_def)

text \<open>The result of a call that refines an outcome of the abstract decoder.\<close>

definition run_refines ::
  "decoder \<Rightarrow> 's \<times> outcome \<Rightarrow> (decoder \<times> 's \<times> http1_chunked_decode option h1result) option \<Rightarrow> bool" where
  "run_refines d sp r =
     (case sp of
        (s', More a' p') \<Rightarrow>
          \<exists>d'. r = Some (d', s', Ok None) \<and> dec_inv d' \<and> dec_abs d' = a' \<and> dec_pending d' = p' \<and> same_frame d d'
      | (s', Failed e) \<Rightarrow> \<exists>d'. r = Some (d', s', Err e)
      | (s', Finished c) \<Rightarrow> \<exists>d'. r = Some (d', s', Ok (Some c)) \<and> dec_complete d' = Some c)"

lemma process_refines:
  assumes "dec_inv d" and "limits_ok (dec_limits d)"
  shows "run_refines d (spec_run (dec_limits d) snk (dec_abs d) s (dec_pending d)) (process snk d s)"
  using assms
proof (induction snk d s rule: process.induct)
  case (1 snk d s)
  note ref = process_step_refines [OF "1.prems", of s snk]
  show ?case
  proof (cases "spec_step (dec_limits d) snk (dec_abs d) s (dec_pending d)")
    case (SCont a' s' p')
    with ref obtain d' where d': "process_step snk d s = Continue d' s'" "dec_inv d'"
      "dec_abs d' = a'" "dec_pending d' = p'" "same_frame d d'"
      by (auto simp: step_refines_def)
    then have "run_refines d' (spec_run (dec_limits d') snk (dec_abs d') s' (dec_pending d'))
        (process snk d' s')"
      using "1.IH" "1.prems" by (auto simp: same_frame_def)
    with d' SCont show ?thesis
      by (auto simp: run_refines_def same_frame_def process.simps [of snk d s]
          spec_run.simps [of "dec_limits d" snk "dec_abs d"] split: prod.splits outcome.splits)
  qed (use ref in \<open>auto simp: step_refines_def run_refines_def same_abs_def
        process.simps [of snk d s] spec_run.simps [of "dec_limits d" snk "dec_abs d"]\<close>)
qed


section \<open>Pushing fragments\<close>

text \<open>
  What a push of \<open>chunk\<close> amounts to when \<open>rcv\<close> bytes came before: the abstract decoder on the bytes
  the limit on the encoded length admits, and an error where it wants more than those.
\<close>

definition spec_push ::
  "http1_chunk_limits \<Rightarrow> 's sink_append \<Rightarrow> astate \<Rightarrow> 's \<Rightarrow> nat \<Rightarrow> bytes \<Rightarrow> bytes \<Rightarrow> 's \<times> outcome" where
  "spec_push lim snk a s rcv p chunk =
     (case spec_run lim snk a s (p @ take (max_encoded_bytes lim - rcv) chunk) of
        (s', More a' p') \<Rightarrow>
          if length chunk \<le> max_encoded_bytes lim - rcv then (s', More a' p')
          else (s', Failed EncodedBodyTooLarge)
      | r \<Rightarrow> r)"

definition push_refines ::
  "decoder \<Rightarrow> bytes \<Rightarrow> 's \<times> outcome \<Rightarrow> (decoder \<times> 's \<times> http1_chunked_decode option h1result) option \<Rightarrow> bool"
where
  "push_refines d chunk sp r =
     (case sp of
        (s', More a' p') \<Rightarrow>
          \<exists>d'. r = Some (d', s', Ok None) \<and> dec_inv d' \<and> dec_abs d' = a' \<and> dec_pending d' = p' \<and>
            dec_limits d' = dec_limits d \<and> dec_complete d' = dec_complete d \<and>
            dec_received_len d' = dec_received_len d + length chunk
      | (s', Failed e) \<Rightarrow> \<exists>d'. r = Some (d', s', Err e)
      | (s', Finished c) \<Rightarrow> \<exists>d'. r = Some (d', s', Ok (Some c)) \<and> dec_complete d' = Some c)"

text \<open>Waiting for input: the state between two pushes.\<close>

definition waiting :: "http1_chunk_limits \<Rightarrow> astate \<Rightarrow> bytes \<Rightarrow> bool" where
  "waiting lim a p \<longleftrightarrow> spec_step lim (\<lambda>_ _. Err InvalidChunk) a () p = SWait"

lemma spec_wait_iffs:
  "spec_size lim a s p = SWait \<longleftrightarrow>
     find_crlf_in p = None \<and> pending_line_len p \<le> max_chunk_line_bytes lim"
  "spec_data lim snk a s k p = SWait \<longleftrightarrow> length p < k + 2"
  "spec_end a p = SWait \<longleftrightarrow> length p < 2"
  by (auto simp: spec_size_def spec_data_def spec_end_def split: option.splits result.splits)

lemma spec_step_wait_iff: "spec_step lim snk a s p = SWait \<longleftrightarrow> waiting lim a p"
  by (cases "a_state a") (simp_all add: waiting_def spec_step_def spec_wait_iffs)

lemma spec_run_waiting: "waiting lim a p \<Longrightarrow> spec_run lim snk a s p = (s, More a p)"
  by (subst spec_run.simps) (simp add: spec_step_wait_iff [THEN iffD2])

lemma spec_run_More_waiting: "spec_run lim snk a s p = (s', More a' p') \<Longrightarrow> waiting lim a' p'"
  by (drule spec_run_More_fixed) (simp add: spec_step_wait_iff)

lemma waiting_init: "waiting lim a_init []"
  by (simp add: waiting_def spec_step_def spec_size_def a_init_def pending_line_len_def)

lemma spec_push_Nil: "waiting lim a p \<Longrightarrow> spec_push lim snk a s rcv p [] = (s, More a p)"
  by (simp add: spec_push_def spec_run_waiting)

lemma spec_push_append:
  assumes "length frag \<le> max_encoded_bytes lim - rcv"
  shows "spec_push lim snk a s rcv p (frag @ rest) =
    (case spec_run lim snk a s (p @ frag) of
       (s', More a' p') \<Rightarrow> spec_push lim snk a' s' (rcv + length frag) p' rest
     | r \<Rightarrow> r)"
proof -
  have fed: "p @ take (max_encoded_bytes lim - rcv) (frag @ rest) =
      (p @ frag) @ take (max_encoded_bytes lim - (rcv + length frag)) rest"
    using assms by simp
  have len: "length (frag @ rest) \<le> max_encoded_bytes lim - rcv \<longleftrightarrow>
      length rest \<le> max_encoded_bytes lim - (rcv + length frag)"
    using assms by auto
  obtain s1 oc where run: "spec_run lim snk a s (p @ frag) = (s1, oc)"
    by (cases "spec_run lim snk a s (p @ frag)")
  show ?thesis
    unfolding spec_push_def fed len spec_run_append [of lim snk a s "p @ frag"] run
    by (cases oc) simp_all
qed

lemma dec_inv_extend:
  assumes "dec_inv d" and "dec_received_len d + length frag \<le> max_encoded_bytes (dec_limits d)"
  shows "dec_inv (d\<lparr>dec_input := dec_input d @ frag, dec_received_len := dec_received_len d + length frag\<rparr>)"
    and "dec_pending (d\<lparr>dec_input := dec_input d @ frag,
           dec_received_len := dec_received_len d + length frag\<rparr>) = dec_pending d @ frag"
  using assms by (auto simp: dec_inv_def scanned_def dec_pending_def nth_append)

text \<open>One turn of the fragment loop.\<close>

lemma push_fragments_unfold:
  assumes inv: "dec_inv d" and lim: "limits_ok (dec_limits d)"
    and al: "\<forall>n \<le> max_encoded_bytes (dec_limits d). alloc n"
    and ne: "chunk \<noteq> []" and room: "dec_received_len d < max_encoded_bytes (dec_limits d)"
  shows "\<exists>frag rest d1. chunk = frag @ rest \<and> frag \<noteq> [] \<and>
    length frag \<le> max_encoded_bytes (dec_limits d) - dec_received_len d \<and>
    d1 = d\<lparr>dec_input := dec_input d @ frag, dec_received_len := dec_received_len d + length frag\<rparr> \<and>
    push_fragments alloc snk d chunk s =
      (case process snk d1 s of
         Some (d2, s2, Ok None) \<Rightarrow> push_fragments alloc snk d2 rest s2
       | r \<Rightarrow> r)"
proof -
  define fl where "fl = min (min (length chunk) HTTP1_CHUNK_INPUT_FRAGMENT_BYTES)
    (max_encoded_bytes (dec_limits d) - dec_received_len d)"
  have fl: "fl \<le> length chunk" "0 < fl" "fl \<le> max_encoded_bytes (dec_limits d) - dec_received_len d"
    using ne room by (auto simp: fl_def HTTP1_CHUNK_INPUT_FRAGMENT_BYTES_def)
  have "length (dec_input d) + fl \<le> max_encoded_bytes (dec_limits d)"
    using inv fl(3) room by (auto simp: dec_inv_def)
  with al have alloc: "alloc (length (dec_input d) + fl)" by blast
  have rcv: "checked_add (dec_received_len d) fl = Some (dec_received_len d + fl)"
    using fl(3) room lim by (auto simp: checked_add_def limits_ok_def)
  have "push_fragments alloc snk d chunk s =
      (case process snk (d\<lparr>dec_input := dec_input d @ take fl chunk,
                           dec_received_len := dec_received_len d + fl\<rparr>) s of
         Some (d2, s2, Ok None) \<Rightarrow> push_fragments alloc snk d2 (drop fl chunk) s2
       | r \<Rightarrow> r)"
    unfolding push_fragments.simps [of alloc snk d chunk s] Let_def saturating_sub_eq fl_def [symmetric]
    using ne room alloc rcv by simp
  moreover have "take fl chunk \<noteq> []" "length (take fl chunk) = fl" "chunk = take fl chunk @ drop fl chunk"
    using fl by auto
  ultimately show ?thesis
    using fl(3)
    by (intro exI [of _ "take fl chunk"] exI [of _ "drop fl chunk"] exI conjI) simp_all
qed

lemma push_fragments_refines:
  assumes "dec_inv d" and "limits_ok (dec_limits d)" and "waiting (dec_limits d) (dec_abs d) (dec_pending d)"
    and "\<forall>n \<le> max_encoded_bytes (dec_limits d). alloc n"
  shows "push_refines d chunk
    (spec_push (dec_limits d) snk (dec_abs d) s (dec_received_len d) (dec_pending d) chunk)
    (push_fragments alloc snk d chunk s)"
  using assms
proof (induction "length chunk" arbitrary: d chunk s rule: less_induct)
  case less
  note inv = less.prems(1) and lim = less.prems(2) and wt = less.prems(3) and al = less.prems(4)
  consider (empty) "chunk = []"
    | (full) "chunk \<noteq> []" "max_encoded_bytes (dec_limits d) - dec_received_len d = 0"
    | (frag) "chunk \<noteq> []" "dec_received_len d < max_encoded_bytes (dec_limits d)"
    by fastforce
  then show ?case
  proof cases
    case empty
    with inv wt show ?thesis
      by (simp add: push_fragments.simps [of alloc snk d "[]" s] spec_push_Nil push_refines_def)
  next
    case full
    with wt show ?thesis
      by (simp add: push_fragments.simps [of alloc snk d chunk s] spec_push_def spec_run_waiting
          push_refines_def)
  next
    case frag
    obtain fr rest d1 where f: "chunk = fr @ rest" "fr \<noteq> []"
      "length fr \<le> max_encoded_bytes (dec_limits d) - dec_received_len d"
      and d1: "d1 = d\<lparr>dec_input := dec_input d @ fr, dec_received_len := dec_received_len d + length fr\<rparr>"
      and eq: "push_fragments alloc snk d chunk s =
        (case process snk d1 s of
           Some (d2, s2, Ok None) \<Rightarrow> push_fragments alloc snk d2 rest s2
         | r \<Rightarrow> r)"
      using push_fragments_unfold [OF inv lim al frag, of snk s] by (elim exE conjE)
    have d1': "dec_inv d1" "dec_pending d1 = dec_pending d @ fr" "dec_abs d1 = dec_abs d"
      "dec_limits d1 = dec_limits d" "dec_complete d1 = dec_complete d"
      "dec_received_len d1 = dec_received_len d + length fr"
      using dec_inv_extend [OF inv, of fr] f frag by (auto simp: d1 dec_abs_def)
    have pr: "run_refines d1 (spec_run (dec_limits d) snk (dec_abs d) s (dec_pending d @ fr)) (process snk d1 s)"
      using process_refines [OF d1'(1), of snk s] d1' lim by simp
    note sp = spec_push_append [OF f(3), of snk "dec_abs d" s "dec_pending d" rest, folded f(1)]
    obtain s2 oc where run: "spec_run (dec_limits d) snk (dec_abs d) s (dec_pending d @ fr) = (s2, oc)"
      by (cases "spec_run (dec_limits d) snk (dec_abs d) s (dec_pending d @ fr)")
    show ?thesis
    proof (cases oc)
      case (More a' p')
      with pr run obtain d2 where d2: "process snk d1 s = Some (d2, s2, Ok None)"
        "dec_inv d2" "dec_abs d2 = a'" "dec_pending d2 = p'" "same_frame d1 d2"
        by (auto simp: run_refines_def)
      have w2: "waiting (dec_limits d) a' p'"
        using run More by (auto intro: spec_run_More_waiting)
      have fr2: "dec_limits d2 = dec_limits d" "dec_complete d2 = dec_complete d"
        "dec_received_len d2 = dec_received_len d + length fr"
        using d2(5) d1' by (auto simp: same_frame_def)
      have "length rest < length chunk" using f by simp
      from less.hyps [OF this, of d2 s2]
      have "push_refines d2 rest
          (spec_push (dec_limits d) snk a' s2 (dec_received_len d + length fr) p' rest)
          (push_fragments alloc snk d2 rest s2)"
        using d2 fr2 lim al w2 by simp
      moreover have "dec_received_len d + length fr + length rest = dec_received_len d + length chunk"
        using f by simp
      ultimately show ?thesis
        using eq d2(1) sp run More fr2
        by (auto simp: push_refines_def split: prod.splits outcome.splits)
    next
      case (Failed e)
      then show ?thesis
        using pr run eq sp by (auto simp: run_refines_def push_refines_def)
    next
      case (Finished c)
      then show ?thesis
        using pr run eq sp by (auto simp: run_refines_def push_refines_def)
    qed
  qed
qed

end
