(* ===== verification/Http1_Chunked_Props.thy ===== *)
theory Http1_Chunked_Props
  imports Http1_Chunked_Spec
begin

text \<open>
  Properties of the chunked decoder: independence of the way the input is cut, absence of panics,
  the bounds of its buffers and counters, what reaches the sink, and the inverse of the chunked
  encoding of RFC 9112.
\<close>

section \<open>A whole transfer\<close>

text \<open>
  The caller's loop: piece after piece is pushed until a push returns something else than
  \<open>Ok None\<close>.
\<close>

fun push_all ::
  "(nat \<Rightarrow> bool) \<Rightarrow> 's sink_append \<Rightarrow> decoder \<Rightarrow> bytes list \<Rightarrow> 's \<Rightarrow>
   (decoder \<times> 's \<times> http1_chunked_decode option h1result) option"
where
  "push_all alloc snk d [] s = Some (d, s, Ok None)"
| "push_all alloc snk d (c # cs) s =
     (case push_with_sink alloc snk d c s of
        Some (d', s', Ok None) \<Rightarrow> push_all alloc snk d' cs s'
      | r \<Rightarrow> r)"

fun outcome_result :: "'s \<times> outcome \<Rightarrow> 's \<times> http1_chunked_decode option h1result" where
  "outcome_result (s, More a p) = (s, Ok None)"
| "outcome_result (s, Failed e) = (s, Err e)"
| "outcome_result (s, Finished c) = (s, Ok (Some c))"

lemma push_refines_result:
  "push_refines d chunk sp r \<Longrightarrow> \<exists>d'. r = Some (d', outcome_result sp)"
  by (cases sp; cases "snd sp") (auto simp: push_refines_def)

lemma spec_push_append_gen:
  "spec_push lim snk a s rcv p (c @ rest) =
     (case spec_push lim snk a s rcv p c of
        (s', More a' p') \<Rightarrow> spec_push lim snk a' s' (rcv + length c) p' rest
      | r \<Rightarrow> r)"
proof (cases "length c \<le> max_encoded_bytes lim - rcv")
  case True
  obtain s1 oc where run: "spec_run lim snk a s (p @ c) = (s1, oc)"
    by (cases "spec_run lim snk a s (p @ c)")
  have "spec_push lim snk a s rcv p c = (s1, oc)"
    using True run by (cases oc) (simp_all add: spec_push_def)
  then show ?thesis
    using spec_push_append [OF True, of snk a s p rest] run by simp
next
  case False
  obtain s1 oc where run: "spec_run lim snk a s (p @ take (max_encoded_bytes lim - rcv) c) = (s1, oc)"
    by (cases "spec_run lim snk a s (p @ take (max_encoded_bytes lim - rcv) c)")
  from False run show ?thesis
    by (cases oc) (simp_all add: spec_push_def)
qed

lemma push_with_sink_refines:
  assumes inv: "dec_inv d" and lim: "limits_ok (dec_limits d)"
    and wt: "waiting (dec_limits d) (dec_abs d) (dec_pending d)"
    and al: "\<forall>n \<le> max_encoded_bytes (dec_limits d). alloc n" and nc: "dec_complete d = None"
  shows "push_refines d chunk
    (spec_push (dec_limits d) snk (dec_abs d) s (dec_received_len d) (dec_pending d) chunk)
    (push_with_sink alloc snk d chunk s)"
proof (cases "chunk = []")
  case True
  from process_refines [OF inv lim, of snk s] wt True nc show ?thesis
    by (auto simp: push_with_sink_def spec_push_Nil spec_run_waiting run_refines_def push_refines_def
        same_frame_def)
next
  case False
  with push_fragments_refines [OF inv lim wt al, of chunk snk s] nc show ?thesis
    by (simp add: push_with_sink_def)
qed

lemma spec_push_More_waiting:
  assumes "spec_push lim snk a s rcv p c = (s', More a' p')"
  shows "waiting lim a' p'"
proof -
  obtain s1 oc where run: "spec_run lim snk a s (p @ take (max_encoded_bytes lim - rcv) c) = (s1, oc)"
    by (cases "spec_run lim snk a s (p @ take (max_encoded_bytes lim - rcv) c)")
  with assms show ?thesis
    by (cases oc) (auto simp: spec_push_def intro: spec_run_More_waiting split: if_splits)
qed

lemma push_all_refines:
  assumes "dec_inv d" and "limits_ok (dec_limits d)"
    and "waiting (dec_limits d) (dec_abs d) (dec_pending d)"
    and "\<forall>n \<le> max_encoded_bytes (dec_limits d). alloc n" and "dec_complete d = None"
  shows "push_refines d (concat cs)
    (spec_push (dec_limits d) snk (dec_abs d) s (dec_received_len d) (dec_pending d) (concat cs))
    (push_all alloc snk d cs s)"
  using assms
proof (induction cs arbitrary: d s)
  case Nil
  then show ?case
    by (simp add: spec_push_Nil push_refines_def)
next
  case (Cons c cs)
  note ref = push_with_sink_refines [OF Cons.prems, of c snk s]
  obtain s1 oc where sp:
    "spec_push (dec_limits d) snk (dec_abs d) s (dec_received_len d) (dec_pending d) c = (s1, oc)"
    by (cases "spec_push (dec_limits d) snk (dec_abs d) s (dec_received_len d) (dec_pending d) c")
  note app = spec_push_append_gen [of "dec_limits d" snk "dec_abs d" s "dec_received_len d"
      "dec_pending d" c "concat cs"]
  show ?case
  proof (cases oc)
    case (More a' p')
    with ref sp obtain d1 where d1: "push_with_sink alloc snk d c s = Some (d1, s1, Ok None)"
      "dec_inv d1" "dec_abs d1 = a'" "dec_pending d1 = p'" "dec_limits d1 = dec_limits d"
      "dec_complete d1 = dec_complete d" "dec_received_len d1 = dec_received_len d + length c"
      by (auto simp: push_refines_def)
    have w1: "waiting (dec_limits d) a' p'"
      using sp More by (auto intro: spec_push_More_waiting)
    have "push_refines d1 (concat cs)
        (spec_push (dec_limits d) snk a' s1 (dec_received_len d + length c) p' (concat cs))
        (push_all alloc snk d1 cs s1)"
      using Cons.IH [of d1 s1] d1 w1 Cons.prems by simp
    with d1 sp app More show ?thesis
      by (auto simp: push_refines_def add.assoc split: prod.splits outcome.splits)
  qed (use ref sp app in \<open>auto simp: push_refines_def\<close>)
qed

lemma push_all_new:
  assumes "limits_ok lim" and "\<forall>n \<le> max_encoded_bytes lim. alloc n"
  shows "push_refines (decoder_new lim) (concat cs)
    (spec_push lim snk a_init s 0 [] (concat cs)) (push_all alloc snk (decoder_new lim) cs s)"
proof -
  have "dec_limits (decoder_new lim) = lim" "dec_received_len (decoder_new lim) = 0"
    "dec_complete (decoder_new lim) = None"
    by (simp_all add: decoder_new_def)
  then show ?thesis
    using push_all_refines [of "decoder_new lim" alloc cs snk s] assms waiting_init [of lim]
    by (simp add: dec_inv_new)
qed

lemma push_all_result:
  assumes "limits_ok lim" and "\<forall>n \<le> max_encoded_bytes lim. alloc n"
  shows "\<exists>d'. push_all alloc snk (decoder_new lim) cs s =
    Some (d', outcome_result (spec_push lim snk a_init s 0 [] (concat cs)))"
  using push_refines_result [OF push_all_new [OF assms]] .

lemma push_all_single: "push_all alloc snk d [c] s = push_with_sink alloc snk d c s"
  by (auto split: option.splits prod.splits result.splits)


section \<open>Sinks\<close>

lemma spec_size_SCont: "spec_size lim a s p = SCont a' s' p' \<Longrightarrow> s' = s \<and> a_decoded a' = a_decoded a"
  by (auto simp: spec_size_def split: option.splits if_splits result.splits)

lemma spec_data_SCont:
  "spec_data lim snk a s k p = SCont a' s' p' \<Longrightarrow>
     snk s (take k p) = Ok s' \<and> k \<le> length p \<and> a_decoded a' = a_decoded a + k"
  by (auto simp: spec_data_def split: if_splits result.splits)

lemma spec_step_SCont:
  assumes "spec_step lim snk a s p = SCont a' s' p'"
  shows "s' = s \<and> a_decoded a' = a_decoded a \<or>
    (\<exists>k. snk s (take k p) = Ok s' \<and> k \<le> length p \<and> a_decoded a' = a_decoded a + k)"
  using assms
  by (cases "a_state a")
    (auto simp: spec_step_def spec_end_append dest: spec_size_SCont spec_data_SCont)

text \<open>
  The contract of \<open>Http1ChunkSink\<close>: a successful append adds exactly the given bytes at the end of
  the contents. What the decoder guarantees of the contents is proved from it once.
\<close>

locale chunk_sink =
  fixes sink :: "'s sink_append"
    and contents :: "'s \<Rightarrow> bytes"
    and sink_ok :: "'s \<Rightarrow> bool"
  assumes append_law: "sink_ok s \<Longrightarrow> sink s bs = Ok s' \<Longrightarrow> contents s' = contents s @ bs \<and> sink_ok s'"
begin

lemma step_contents:
  assumes "sink_ok s" and "spec_step lim sink a s p = SCont a' s' p'"
  shows "sink_ok s' \<and> prefix (contents s) (contents s') \<and>
    length (contents s') + a_decoded a = length (contents s) + a_decoded a'"
  using spec_step_SCont [OF assms(2)]
proof (elim disjE exE conjE)
  assume "s' = s" and "a_decoded a' = a_decoded a"
  with assms(1) show ?thesis by simp
next
  fix k
  assume k: "sink s (take k p) = Ok s'" "k \<le> length p" "a_decoded a' = a_decoded a + k"
  from append_law [OF assms(1) k(1)] k(2,3) show ?thesis by simp
qed

lemma run_contents:
  assumes "sink_ok s" and "spec_run lim sink a s p = (s', oc)"
  shows "sink_ok s' \<and> prefix (contents s) (contents s') \<and>
    (\<forall>a' p'. oc = More a' p' \<longrightarrow> length (contents s') + a_decoded a = length (contents s) + a_decoded a') \<and>
    (\<forall>c. oc = Finished c \<longrightarrow> length (contents s') + a_decoded a = length (contents s) + cd_decoded_len c)"
  using assms
proof (induction "length p" arbitrary: a s p rule: less_induct)
  case less
  show ?case
  proof (cases "spec_step lim sink a s p")
    case (SCont a1 s1 p1)
    then have len: "length p1 < length p" by (rule spec_step_length)
    have run: "spec_run lim sink a1 s1 p1 = (s', oc)"
      using less.prems(2) SCont by (simp add: spec_run.simps [of lim sink a s p])
    note c1 = step_contents [OF less.prems(1) SCont]
    then have "sink_ok s1" by simp
    from less.hyps [OF len this run] c1 show ?thesis
      by (auto intro: prefix_order.trans)
  next
    case SWait
    with less.prems show ?thesis
      by (auto simp: spec_run.simps [of lim sink a s p])
  next
    case (SFail e)
    with less.prems show ?thesis
      by (auto simp: spec_run.simps [of lim sink a s p])
  next
    case (SDone c)
    then have "cd_decoded_len c = a_decoded a"
      by (cases "a_state a")
        (auto simp: spec_step_def spec_size_append spec_data_append spec_end_def split: if_splits)
    with SDone less.prems show ?thesis
      by (auto simp: spec_run.simps [of lim sink a s p])
  qed
qed

end

interpretation vec: chunk_sink "vec_append alloc" "\<lambda>out. out" "\<lambda>_. True" for alloc
  by unfold_locales (auto simp: vec_append_def split: if_splits)

interpretation slice: chunk_sink slice_append "\<lambda>s. take (ss_len s) (ss_output s)"
  "\<lambda>s. ss_len s \<le> length (ss_output s)"
  by unfold_locales
    (auto simp: slice_append_def checked_add_def min.absorb1 split: if_splits option.splits)


section \<open>The chunked encoding\<close>

text \<open>The encoding of RFC 9112, 7.1, without extensions or trailers.\<close>

definition hex_char :: "nat \<Rightarrow> char" where
  "hex_char v = (if v < 10 then char_of (48 + v) else char_of (87 + v))"

fun hex_string :: "nat \<Rightarrow> string" where
  "hex_string n = (if n < 16 then [hex_char n] else hex_string (n div 16) @ [hex_char (n mod 16)])"

declare hex_string.simps [simp del]

definition encode_chunk :: "bytes \<Rightarrow> bytes" where
  "encode_chunk data = hex_string (length data) @ [CR, LF] @ data @ [CR, LF]"

definition encode_body :: "bytes list \<Rightarrow> bytes" where
  "encode_body chunks = concat (map encode_chunk chunks) @ ''0'' @ [CR, LF, CR, LF]"

lemma hex_value_hex_char: "v < 16 \<Longrightarrow> hex_value (hex_char v) = Some v"
  by (auto simp: hex_value_def hex_char_def byte_in_def)

lemma hex_char_not_special:
  assumes "v < 16"
  shows "hex_char v \<noteq> CR" "hex_char v \<noteq> CHR '';''"
proof -
  from assms have "byte (hex_char v) \<in> {48..57} \<union> {97..102}"
    by (auto simp: hex_char_def)
  then show "hex_char v \<noteq> CR" "hex_char v \<noteq> CHR '';''"
    by (auto simp: byte_def CR_def)
qed

lemma hex_string_neq_Nil [simp]: "hex_string n \<noteq> []"
  by (subst hex_string.simps) simp

lemma hex_string_not_special: "c \<in> set (hex_string n) \<Longrightarrow> c \<noteq> CR \<and> c \<noteq> CHR '';''"
proof (induction n rule: hex_string.induct)
  case (1 n)
  show ?case
  proof (cases "n < 16")
    case True
    with "1.prems" show ?thesis
      by (simp add: hex_string.simps [of n] hex_char_not_special)
  next
    case False
    with 1 show ?thesis
      by (auto simp: hex_string.simps [of n] hex_char_not_special)
  qed
qed

lemma length_hex_string: "0 < k \<Longrightarrow> n < 16 ^ k \<Longrightarrow> length (hex_string n) \<le> k"
proof (induction k arbitrary: n)
  case 0
  then show ?case by simp
next
  case (Suc k)
  show ?case
  proof (cases "n < 16")
    case True
    then show ?thesis by (simp add: hex_string.simps [of n])
  next
    case False
    then have "0 < k" using Suc.prems by (cases k) auto
    moreover have "n div 16 < 16 ^ k" using Suc.prems by (simp add: less_mult_imp_div_less mult.commute)
    ultimately have "length (hex_string (n div 16)) \<le> k" by (rule Suc.IH)
    with False show ?thesis by (simp add: hex_string.simps [of n])
  qed
qed

lemma parse_chunk_size_append:
  "parse_chunk_size m n (xs @ ys) = and_then (parse_chunk_size m n xs) (\<lambda>n'. parse_chunk_size m n' ys)"
proof (induction xs arbitrary: n)
  case Nil
  then show ?case by simp
next
  case (Cons x xs)
  show ?case
    by (simp add: and_then_assoc if_distrib [of "\<lambda>r. and_then r _"] Cons.IH cong: if_cong)
qed

lemma parse_chunk_size_hex:
  assumes "n \<le> m" and "m \<le> u64_max"
  shows "parse_chunk_size m 0 (hex_string n) = Ok n"
  using assms(1)
proof (induction n rule: hex_string.induct)
  case (1 n)
  have fit: "k \<le> n \<Longrightarrow> checked_add 0 k = Some k" for k
    using "1.prems" assms(2) by (simp add: checked_add_def)
  show ?case
  proof (cases "n < 16")
    case True
    with "1.prems" fit show ?thesis
      by (simp add: hex_string.simps [of n] hex_value_hex_char checked_mul_def)
  next
    case False
    have d: "n div 16 * 16 + n mod 16 = n" "n div 16 * 16 \<le> n" "n div 16 \<le> n" by simp_all
    have "parse_chunk_size m 0 (hex_string (n div 16)) = Ok (n div 16)"
      using 1 False d by simp
    moreover have "checked_mul (n div 16) 16 = Some (n div 16 * 16)"
      "checked_add (n div 16 * 16) (n mod 16) = Some n"
      using d "1.prems" assms(2) by (simp_all add: checked_mul_def checked_add_def)
    ultimately show ?thesis
      using False "1.prems"
      by (simp add: hex_string.simps [of n] parse_chunk_size_append hex_value_hex_char)
  qed
qed

lemma find_crlf_in_line: "CR \<notin> set l \<Longrightarrow> find_crlf_in (l @ CR # LF # r) = Some (length l)"
proof (induction l)
  case Nil
  then show ?case by simp
next
  case (Cons c l)
  then show ?case by (cases l) auto
qed

lemma size_line_hex:
  assumes "n \<le> m" and "m \<le> u64_max"
  shows "parse_chunk_size_line (hex_string n) m = Ok (n, 0)"
proof -
  have "position (\<lambda>c. c = CHR '';'') (hex_string n) = None"
    using hex_string_not_special by (auto simp: position_None_iff)
  then have "len_until (\<lambda>c. c = CHR '';'') (hex_string n) = length (hex_string n)"
    by (simp add: len_until_def)
  then show ?thesis
    using parse_chunk_size_hex [OF assms]
    by (simp add: parse_chunk_size_line_def validate_chunk_extensions.simps)
qed

lemma spec_size_hex:
  assumes lim: "limits_ok lim" and n: "n \<le> max_chunk_size lim" and line: "16 \<le> max_chunk_line_bytes lim"
    and st: "a_state a = SizeLine" and cnt: "a_count a < max_chunk_count lim"
    and ext: "a_ext a \<le> max_chunk_extension_bytes lim"
  shows "spec_step lim snk a s (hex_string n @ CR # LF # r) =
    SCont (a\<lparr>a_state := (if n = 0 then BodyEnd else ChunkData n), a_count := a_count a + 1,
             a_consumed := a_consumed a + length (hex_string n) + 2\<rparr>) s r"
proof -
  have m: "max_chunk_size lim \<le> u64_max" using lim by (simp add: limits_ok_def)
  have "n < 16 ^ 16" using n m by (simp add: u64_max_def)
  then have "length (hex_string n) \<le> 16" using length_hex_string [of 16 n] by simp
  moreover have "find_crlf_in (hex_string n @ CR # LF # r) = Some (length (hex_string n))"
    using hex_string_not_special by (intro find_crlf_in_line) auto
  ultimately show ?thesis
    using st cnt ext line size_line_hex [OF n m]
    by (simp add: spec_step_def spec_size_def)
qed


text \<open>What the limits must admit for a body sent as \<open>chunks\<close>.\<close>

definition body_fits :: "http1_chunk_limits \<Rightarrow> bytes list \<Rightarrow> bool" where
  "body_fits lim chunks \<longleftrightarrow>
     list_all (\<lambda>c. c \<noteq> [] \<and> length c \<le> max_chunk_size lim) chunks \<and>
     length (concat chunks) \<le> max_body_bytes lim \<and>
     length (encode_body chunks) \<le> max_encoded_bytes lim \<and>
     length chunks < max_chunk_count lim \<and> 16 \<le> max_chunk_line_bytes lim"

context chunk_sink
begin

lemma run_chunk:
  assumes lim: "limits_ok lim" and line: "16 \<le> max_chunk_line_bytes lim"
    and data: "data \<noteq> []" "length data \<le> max_chunk_size lim"
    and body: "a_decoded a + length data \<le> max_body_bytes lim"
    and st: "a_state a = SizeLine" "a_count a < max_chunk_count lim"
      "a_ext a \<le> max_chunk_extension_bytes lim"
    and ok: "sink s data = Ok s'"
  shows "spec_run lim sink a s (encode_chunk data @ rest) =
    spec_run lim sink (a\<lparr>a_decoded := a_decoded a + length data, a_count := a_count a + 1,
                        a_consumed := a_consumed a + length (encode_chunk data)\<rparr>) s' rest"
proof -
  let ?a1 = "a\<lparr>a_state := ChunkData (length data), a_count := a_count a + 1,
    a_consumed := a_consumed a + length (hex_string (length data)) + 2\<rparr>"
  have s1: "spec_step lim sink a s (encode_chunk data @ rest) = SCont ?a1 s (data @ CR # LF # rest)"
    using spec_size_hex [OF lim data(2) line st, of sink s] data(1) by (simp add: encode_chunk_def)
  have s2: "spec_step lim sink ?a1 s (data @ CR # LF # rest) =
      SCont (?a1\<lparr>a_state := SizeLine, a_decoded := a_decoded a + length data,
                 a_consumed := a_consumed ?a1 + length data + 2\<rparr>) s' rest"
    using body ok by (simp add: spec_step_def spec_data_def)
  have eq: "?a1\<lparr>a_state := SizeLine, a_decoded := a_decoded a + length data,
                 a_consumed := a_consumed ?a1 + length data + 2\<rparr> =
      a\<lparr>a_decoded := a_decoded a + length data, a_count := a_count a + 1,
        a_consumed := a_consumed a + length (encode_chunk data)\<rparr>"
    using st(1) by (simp add: encode_chunk_def)
  show ?thesis
    by (simp only: spec_run.simps [of lim sink a s "encode_chunk data @ rest"]
        spec_run.simps [of lim sink ?a1] s1 s2 eq spec_step.case)
qed

lemma run_last_chunk:
  assumes "limits_ok lim" and "16 \<le> max_chunk_line_bytes lim" and "a_state a = SizeLine"
    and "a_count a < max_chunk_count lim" and "a_ext a \<le> max_chunk_extension_bytes lim"
  shows "spec_run lim sink a s (''0'' @ [CR, LF, CR, LF]) =
    (s, Finished \<lparr>cd_decoded_len = a_decoded a, cd_consumed_len = a_consumed a + 5\<rparr>)"
proof -
  have h: "hex_string 0 = ''0''"
    by code_simp
  let ?a1 = "a\<lparr>a_state := BodyEnd, a_count := a_count a + 1, a_consumed := a_consumed a + 3\<rparr>"
  have s1: "spec_step lim sink a s (''0'' @ [CR, LF, CR, LF]) = SCont ?a1 s [CR, LF]"
    using spec_size_hex [OF assms(1) _ assms(2-5), of 0 sink s "[CR, LF]"] h by simp
  have s2: "spec_step lim sink ?a1 s [CR, LF] =
      SDone \<lparr>cd_decoded_len = a_decoded a, cd_consumed_len = a_consumed a + 5\<rparr>"
    by (simp add: spec_step_def spec_end_def)
  show ?thesis
    by (simp only: spec_run.simps [of lim sink a s] spec_run.simps [of lim sink ?a1] s1 s2 spec_step.case)
qed

lemma run_encoded:
  assumes lim: "limits_ok lim" and line: "16 \<le> max_chunk_line_bytes lim"
    and grow: "\<And>s bs. sink_ok s \<Longrightarrow> length (contents s) + length bs \<le> cap \<Longrightarrow> \<exists>s'. sink s bs = Ok s'"
  shows "list_all (\<lambda>c. c \<noteq> [] \<and> length c \<le> max_chunk_size lim) chunks \<Longrightarrow>
    a_decoded a + length (concat chunks) \<le> max_body_bytes lim \<Longrightarrow>
    a_count a + length chunks < max_chunk_count lim \<Longrightarrow> a_state a = SizeLine \<Longrightarrow>
    a_ext a \<le> max_chunk_extension_bytes lim \<Longrightarrow> sink_ok s \<Longrightarrow>
    length (contents s) + length (concat chunks) \<le> cap \<Longrightarrow>
    \<exists>s'. spec_run lim sink a s (encode_body chunks) =
        (s', Finished \<lparr>cd_decoded_len = a_decoded a + length (concat chunks),
                       cd_consumed_len = a_consumed a + length (encode_body chunks)\<rparr>) \<and>
      contents s' = contents s @ concat chunks \<and> sink_ok s'"
proof (induction chunks arbitrary: a s)
  case Nil
  then show ?case
    using run_last_chunk [OF lim line, of a s] by (simp add: encode_body_def)
next
  case (Cons data chunks)
  from Cons.prems grow [of s data] obtain s1 where s1: "sink s data = Ok s1" by auto
  from append_law [OF _ s1] Cons.prems have c1: "contents s1 = contents s @ data" "sink_ok s1" by auto
  let ?a1 = "a\<lparr>a_decoded := a_decoded a + length data, a_count := a_count a + 1,
    a_consumed := a_consumed a + length (encode_chunk data)\<rparr>"
  have enc: "encode_body (data # chunks) = encode_chunk data @ encode_body chunks"
    by (simp add: encode_body_def)
  have run: "spec_run lim sink a s (encode_body (data # chunks)) = spec_run lim sink ?a1 s1 (encode_body chunks)"
    unfolding enc using Cons.prems by (intro run_chunk [OF lim line _ _ _ _ _ _ s1]) auto
  have "\<exists>s'. spec_run lim sink ?a1 s1 (encode_body chunks) =
        (s', Finished \<lparr>cd_decoded_len = a_decoded ?a1 + length (concat chunks),
                       cd_consumed_len = a_consumed ?a1 + length (encode_body chunks)\<rparr>) \<and>
      contents s' = contents s1 @ concat chunks \<and> sink_ok s'"
    by (rule Cons.IH) (use Cons.prems c1 in auto)
  with run c1 show ?case
    by (auto simp: enc add.assoc)
qed

end


section \<open>Completed bodies stay within the limits\<close>

lemma spec_step_limits:
  assumes "spec_step lim snk a s p = SCont a' s' p'" and "a_decoded a \<le> max_body_bytes lim"
  shows "a_decoded a' \<le> max_body_bytes lim \<and> a_consumed a' + length p' = a_consumed a + length p"
proof (cases "a_state a")
  case SizeLine
  with assms show ?thesis
    by (auto simp: spec_step_def spec_size_def dest!: find_crlf_in_bound
        split: option.splits if_splits result.splits)
next
  case (ChunkData k)
  with assms show ?thesis
    by (auto simp: spec_step_def spec_data_def split: if_splits result.splits)
next
  case BodyEnd
  with assms show ?thesis
    by (simp add: spec_step_def spec_end_append)
qed

lemma spec_step_SDone:
  assumes "spec_step lim snk a s p = SDone c"
  shows "cd_decoded_len c = a_decoded a \<and> cd_consumed_len c \<le> a_consumed a + length p"
  using assms
  by (cases "a_state a")
    (auto simp: spec_step_def spec_size_append spec_data_append spec_end_def split: if_splits)

lemma spec_run_limits:
  "spec_run lim snk a s p = (s', Finished c) \<Longrightarrow> a_decoded a \<le> max_body_bytes lim \<Longrightarrow>
     cd_decoded_len c \<le> max_body_bytes lim \<and> cd_consumed_len c \<le> a_consumed a + length p"
proof (induction lim snk a s p rule: spec_run.induct)
  case (1 lim snk a s p)
  show ?case
  proof (cases "spec_step lim snk a s p")
    case (SCont a1 s1 p1)
    with 1 spec_step_limits [OF SCont] show ?thesis
      by (auto simp: spec_run.simps [of lim snk a s p])
  next
    case (SDone c')
    with 1 spec_step_SDone [OF SDone] show ?thesis
      by (auto simp: spec_run.simps [of lim snk a s p])
  qed (use 1 in \<open>auto simp: spec_run.simps [of lim snk a s p]\<close>)
qed

lemma spec_push_limits:
  assumes "spec_push lim snk a_init s 0 [] c = (s', Finished r)"
  shows "cd_decoded_len r \<le> max_body_bytes lim \<and> cd_consumed_len r \<le> length c \<and>
    cd_consumed_len r \<le> max_encoded_bytes lim"
proof -
  obtain s1 oc where run: "spec_run lim snk a_init s (take (max_encoded_bytes lim) c) = (s1, oc)"
    by (cases "spec_run lim snk a_init s (take (max_encoded_bytes lim) c)")
  with assms have "spec_run lim snk a_init s (take (max_encoded_bytes lim) c) = (s', Finished r)"
    by (cases oc) (auto simp: spec_push_def split: if_splits)
  from spec_run_limits [OF this] show ?thesis
    by (simp add: a_init_def)
qed


section \<open>Pushing into a vector\<close>

text \<open>The caller's loop over \<open>push\<close>, whose guard wants the output to be what was decoded so far.\<close>

fun push_pieces ::
  "(nat \<Rightarrow> bool) \<Rightarrow> decoder \<Rightarrow> bytes list \<Rightarrow> bytes \<Rightarrow>
   (decoder \<times> bytes \<times> http1_chunked_decode option h1result) option"
where
  "push_pieces alloc d [] out = Some (d, out, Ok None)"
| "push_pieces alloc d (c # cs) out =
     (case push alloc d c out of
        Some (d', out', Ok None) \<Rightarrow> push_pieces alloc d' cs out'
      | r \<Rightarrow> r)"

lemma spec_push_vec_length:
  assumes "spec_push lim (vec_append alloc) a out rcv p c = (out', More a' p')"
    and "length out = a_decoded a"
  shows "length out' = a_decoded a'"
proof -
  obtain s1 oc where run:
    "spec_run lim (vec_append alloc) a out (p @ take (max_encoded_bytes lim - rcv) c) = (s1, oc)"
    by (cases "spec_run lim (vec_append alloc) a out (p @ take (max_encoded_bytes lim - rcv) c)")
  with assms(1) have "s1 = out'" "oc = More a' p'"
    by (cases oc; auto simp: spec_push_def split: if_splits)+
  with vec.run_contents [OF _ run] assms(2) show ?thesis by simp
qed

lemma push_pieces_eq:
  assumes "dec_inv d" and "limits_ok (dec_limits d)"
    and "waiting (dec_limits d) (dec_abs d) (dec_pending d)"
    and "\<forall>n \<le> max_encoded_bytes (dec_limits d). alloc n" and "dec_complete d = None"
    and "length out = dec_decoded_len d"
  shows "push_pieces alloc d cs out = push_all alloc (vec_append alloc) d cs out"
  using assms
proof (induction cs arbitrary: d out)
  case Nil
  then show ?case by simp
next
  case (Cons c cs)
  note ref = push_with_sink_refines [OF Cons.prems(1-5), of c "vec_append alloc" out]
  have p: "push alloc d c out = push_with_sink alloc (vec_append alloc) d c out"
    using Cons.prems(6) by (simp add: push_def)
  obtain s1 oc where sp: "spec_push (dec_limits d) (vec_append alloc) (dec_abs d) out
      (dec_received_len d) (dec_pending d) c = (s1, oc)"
    by (cases "spec_push (dec_limits d) (vec_append alloc) (dec_abs d) out
      (dec_received_len d) (dec_pending d) c")
  show ?case
  proof (cases oc)
    case (More a' p')
    with ref sp obtain d1 where d1: "push_with_sink alloc (vec_append alloc) d c out = Some (d1, s1, Ok None)"
      "dec_inv d1" "dec_abs d1 = a'" "dec_pending d1 = p'" "dec_limits d1 = dec_limits d"
      "dec_complete d1 = dec_complete d"
      by (auto simp: push_refines_def)
    have "length s1 = dec_decoded_len d1"
      using spec_push_vec_length [OF sp [unfolded More]] Cons.prems(6) d1(3)
      by (auto simp: dec_abs_def)
    moreover have "waiting (dec_limits d) a' p'"
      using sp More by (auto intro: spec_push_More_waiting)
    ultimately have "push_pieces alloc d1 cs s1 = push_all alloc (vec_append alloc) d1 cs s1"
      using d1 Cons.prems by (intro Cons.IH) simp_all
    with d1(1) p show ?thesis by simp
  qed (use ref sp p in \<open>auto simp: push_refines_def\<close>)
qed

lemma push_pieces_new:
  assumes "limits_ok lim" and "\<forall>n \<le> max_encoded_bytes lim. alloc n"
  shows "push_pieces alloc (decoder_new lim) cs [] = push_all alloc (vec_append alloc) (decoder_new lim) cs []"
  using assms waiting_init [of lim]
  by (intro push_pieces_eq) (simp_all add: dec_inv_new, simp_all add: decoder_new_def)


section \<open>Properties\<close>

lemma default_limits_ok: "limits_ok default_chunk_limits"
  by (simp add: limits_ok_def default_chunk_limits_def DEFAULT_HTTP1_MAX_BODY_BYTES_def
      DEFAULT_HTTP1_MAX_CHUNK_SIZE_def DEFAULT_HTTP1_MAX_ENCODED_BYTES_def
      DEFAULT_HTTP1_MAX_CHUNK_COUNT_def DEFAULT_HTTP1_MAX_CHUNK_EXTENSION_BYTES_def u64_max_def)

text \<open>
  C1. Independence of fragmentation. However the network cuts an encoded body into pieces, pushing
  them one by one leaves the same output in the sink and the same result (incomplete, error or
  completed) as pushing the whole body at once, and neither panics. This covers the decoder's
  buffering, its incremental line scan, its compaction and its splitting of large inputs.
\<close>

theorem chunked_fragmentation_independent:
  assumes "limits_ok lim" and "\<forall>n \<le> max_encoded_bytes lim. alloc n"
  shows "\<exists>d1 d2 res. push_all alloc snk (decoder_new lim) pieces s = Some (d1, res) \<and>
    push_with_sink alloc snk (decoder_new lim) (concat pieces) s = Some (d2, res)"
proof -
  obtain d1 where "push_all alloc snk (decoder_new lim) pieces s =
      Some (d1, outcome_result (spec_push lim snk a_init s 0 [] (concat pieces)))"
    using push_all_result [OF assms, of snk pieces s] by blast
  moreover obtain d2 where "push_all alloc snk (decoder_new lim) [concat pieces] s =
      Some (d2, outcome_result (spec_push lim snk a_init s 0 [] (concat pieces)))"
    using push_all_result [OF assms, of snk "[concat pieces]" s] by auto
  ultimately show ?thesis
    unfolding push_all_single by blast
qed

theorem chunked_fragmentation_independent_witness:
  "\<exists>d1 d2 res.
     push_all (\<lambda>_. True) (vec_append (\<lambda>_. True)) (decoder_new default_chunk_limits)
       [''3'' @ [CR], [LF] @ ''ab'', ''c'' @ [CR, LF] @ ''0'', [CR, LF, CR, LF]] [] = Some (d1, res) \<and>
     push_with_sink (\<lambda>_. True) (vec_append (\<lambda>_. True)) (decoder_new default_chunk_limits)
       (''3'' @ [CR, LF] @ ''abc'' @ [CR, LF] @ ''0'' @ [CR, LF, CR, LF]) [] = Some (d2, res)"
  using chunked_fragmentation_independent [OF default_limits_ok, of "\<lambda>_. True"
      "vec_append (\<lambda>_. True)" "[''3'' @ [CR], [LF] @ ''ab'', ''c'' @ [CR, LF] @ ''0'', [CR, LF, CR, LF]]" "[]"]
  by simp

text \<open>
  C2. Refinement. After any sequence of pushes the decoder is a correct implementation of the
  abstract decoder \<open>spec_run\<close> on the bytes received so far (cut at the limit on the encoded length):
  same output, same result, and while the body is incomplete the invariant holds and the
  concrete buffer abstracts to the abstract decoder's state and unread bytes.
\<close>

theorem chunked_decoder_refines:
  assumes "limits_ok lim" and "\<forall>n \<le> max_encoded_bytes lim. alloc n"
  shows "push_refines (decoder_new lim) (concat pieces)
    (spec_push lim snk a_init s 0 [] (concat pieces)) (push_all alloc snk (decoder_new lim) pieces s)"
  by (rule push_all_new [OF assms])

theorem chunked_decoder_refines_witness:
  "push_refines (decoder_new default_chunk_limits) (''2;x=y'' @ [CR, LF] @ ''ok'')
     (spec_push default_chunk_limits slice_append a_init \<lparr>ss_output = ''......'', ss_len = 0\<rparr> 0 []
        (''2;x=y'' @ [CR, LF] @ ''ok''))
     (push_all (\<lambda>_. True) slice_append (decoder_new default_chunk_limits)
        [''2;x=y'', [CR, LF] @ ''ok''] \<lparr>ss_output = ''......'', ss_len = 0\<rparr>)"
  using chunked_decoder_refines [OF default_limits_ok, of "\<lambda>_. True" "[''2;x=y'', [CR, LF] @ ''ok'']"
      slice_append "\<lparr>ss_output = ''......'', ss_len = 0\<rparr>"]
  by simp





end
