(* ===== verification/Http1_Connection.thy ===== *)
theory Http1_Connection
  imports Http1_Types
begin

text \<open>
  The connection options of \<open>crates/fluxheim-protocol/src/http1_connection.rs\<close>: the tokens of the
  \<open>Connection\<close> fields, the hop-by-hop fields they name and the persistence of the connection.
\<close>

datatype connection_directive = Close | Persistent

record connection_options =
  co_options :: "string set"

definition options_contains :: "connection_options \<Rightarrow> string \<Rightarrow> bool" where
  "options_contains opts name \<longleftrightarrow> to_ascii_lowercase name \<in> co_options opts"

definition hop_by_hop_candidates :: "string list" where
  "hop_by_hop_candidates =
     [''connection'', ''keep-alive'', ''proxy-authenticate'', ''proxy-authorization'',
      ''proxy-connection'', ''te'', ''trailer'', ''transfer-encoding'', ''upgrade'']"

definition identifies_hop_by_hop_header :: "connection_options \<Rightarrow> string \<Rightarrow> bool" where
  "identifies_hop_by_hop_header opts name \<longleftrightarrow>
     options_contains opts name \<or> list_ex (eq_ignore_ascii_case name) hop_by_hop_candidates"

fun insert_tokens :: "string list \<Rightarrow> string set \<Rightarrow> string set h1result" where
  "insert_tokens [] options = Ok options"
| "insert_tokens (t # ts) options =
     (let token = trim t
      in if \<not> http_token_valid token then Err InvalidConnection
         else insert_tokens ts (insert (to_ascii_lowercase token) options))"

fun insert_header_tokens :: "http1_header list \<Rightarrow> string set \<Rightarrow> string set h1result" where
  "insert_header_tokens [] options = Ok options"
| "insert_header_tokens (h # hs) options =
     (if \<not> eq_ignore_ascii_case (hdr_name h) ''connection'' then insert_header_tokens hs options
      else and_then (insert_tokens (split_on (CHR '','') (hdr_value h)) options)
             (insert_header_tokens hs))"

definition http1_connection_options :: "http1_header list \<Rightarrow> connection_options h1result" where
  "http1_connection_options headers =
     and_then (insert_header_tokens headers {}) (\<lambda>options. Ok \<lparr>co_options = options\<rparr>)"

definition http1_connection_directive ::
    "http1_version \<Rightarrow> http1_header list \<Rightarrow> connection_directive h1result" where
  "http1_connection_directive version headers =
     and_then (http1_connection_options headers) (\<lambda>options.
       if options_contains options ''close'' then Ok Close
       else if version = Http11 \<or> options_contains options ''keep-alive'' then Ok Persistent
       else Ok Close)"


subsection \<open>The options are the tokens of the Connection fields\<close>

definition connection_tokens :: "http1_header list \<Rightarrow> string list" where
  "connection_tokens hs =
     concat (map (\<lambda>h. map trim (split_on (CHR '','') (hdr_value h)))
       (filter (\<lambda>h. eq_ignore_ascii_case (hdr_name h) ''connection'') hs))"

lemma insert_tokens_eq:
  "insert_tokens ts opts =
     (if list_all (\<lambda>t. http_token_valid (trim t)) ts
      then Ok (opts \<union> (\<lambda>t. to_ascii_lowercase (trim t)) ` set ts) else Err InvalidConnection)"
  by (induction ts arbitrary: opts) (auto simp: Let_def)

lemma insert_header_tokens_eq:
  "insert_header_tokens hs opts =
     (if list_all http_token_valid (connection_tokens hs)
      then Ok (opts \<union> to_ascii_lowercase ` set (connection_tokens hs))
      else Err InvalidConnection)"
proof (induction hs arbitrary: opts)
  case Nil
  then show ?case by (simp add: connection_tokens_def)
next
  case (Cons h hs)
  show ?case
  proof (cases "eq_ignore_ascii_case (hdr_name h) ''connection''")
    case True
    let ?ts = "map trim (split_on (CHR '','') (hdr_value h))"
    from True have ct: "connection_tokens (h # hs) = ?ts @ connection_tokens hs"
      by (simp add: connection_tokens_def)
    have it: "insert_tokens (split_on (CHR '','') (hdr_value h)) opts =
        (if list_all http_token_valid ?ts then Ok (opts \<union> to_ascii_lowercase ` set ?ts)
         else Err InvalidConnection)"
      by (simp add: insert_tokens_eq list.pred_map comp_def image_image)
    show ?thesis
      unfolding ct insert_header_tokens.simps it using True Cons.IH
      by (cases "list_all http_token_valid ?ts")
        (simp_all only: list_all_append and_then.simps image_Un set_append Un_assoc if_True if_False
          not_True_eq_False simp_thms)
  next
    case False
    then show ?thesis using Cons.IH by (simp add: connection_tokens_def)
  qed
qed

lemma http1_connection_options_eq:
  "http1_connection_options hs =
     (if list_all http_token_valid (connection_tokens hs)
      then Ok \<lparr>co_options = to_ascii_lowercase ` set (connection_tokens hs)\<rparr>
      else Err InvalidConnection)"
  by (simp add: http1_connection_options_def insert_header_tokens_eq)

lemma lower_mem_image_iff:
  "to_ascii_lowercase n \<in> to_ascii_lowercase ` set ts \<longleftrightarrow>
     (\<exists>t \<in> set ts. eq_ignore_ascii_case t n)"
  unfolding eq_ignore_ascii_case_def image_iff by (rule bex_cong [OF refl]) (rule eq_commute)

lemma options_contains_iff:
  "http1_connection_options hs = Ok opts \<Longrightarrow>
     options_contains opts name \<longleftrightarrow> (\<exists>t \<in> set (connection_tokens hs). eq_ignore_ascii_case t name)"
  by (auto simp: http1_connection_options_eq options_contains_def lower_mem_image_iff split: if_splits)

lemma connection_directive_iff:
  assumes "http1_connection_directive v hs = Ok d"
  shows "d = Persistent \<longleftrightarrow>
    \<not> (\<exists>t \<in> set (connection_tokens hs). eq_ignore_ascii_case t ''close'') \<and>
    (v = Http11 \<or> (\<exists>t \<in> set (connection_tokens hs). eq_ignore_ascii_case t ''keep-alive''))"
proof -
  from assms obtain opts where o: "http1_connection_options hs = Ok opts"
    by (auto simp: http1_connection_directive_def result_simps)
  from assms have "d = (if options_contains opts ''close'' then Close
      else if v = Http11 \<or> options_contains opts ''keep-alive'' then Persistent else Close)"
    by (simp add: http1_connection_directive_def o split: if_splits)
  then show ?thesis
    by (simp add: options_contains_iff [OF o])
qed

end
