(* ===== verification/Net_Addr.thy ===== *)
theory Net_Addr
  imports Rust_Str
begin

text \<open>
  IP and socket addresses of Rust's \<open>std::net\<close> as the sources use them: big-endian bytes, the
  parser behind \<open>str::parse::<IpAddr>\<close> (an IPv4 or IPv6 literal that takes the whole string) and
  the \<open>Display\<close> output of both families.
\<close>

section \<open>Big-endian bytes\<close>

fun be_bytes :: "nat \<Rightarrow> nat \<Rightarrow> bytes" where
  "be_bytes 0 n = []"
| "be_bytes (Suc k) n = be_bytes k (n div 256) @ [char_of (n mod 256)]"

definition be_value :: "bytes \<Rightarrow> nat" where
  "be_value bs = foldl (\<lambda>n c. 256 * n + byte c) 0 bs"

lemma length_be_bytes [simp]: "length (be_bytes k n) = k"
  by (induction k arbitrary: n) auto

lemma be_value_Nil [simp]: "be_value [] = 0"
  by (simp add: be_value_def)

lemma be_value_snoc [simp]: "be_value (bs @ [c]) = 256 * be_value bs + byte c"
  by (simp add: be_value_def)

lemma be_value_be_bytes: "be_value (be_bytes k n) = n mod 256 ^ k"
proof (induction k arbitrary: n)
  case 0
  then show ?case by simp
next
  case (Suc k)
  have "n mod 256 ^ Suc k = 256 * (n div 256 mod 256 ^ k) + n mod 256"
    by (simp add: mod_mult2_eq)
  with Suc show ?case by simp
qed

lemma be_value_less: "be_value bs < 256 ^ length bs"
proof (induction bs rule: rev_induct)
  case Nil
  then show ?case by simp
next
  case (snoc c bs)
  have "be_value (bs @ [c]) < 256 * be_value bs + 256"
    by simp
  also have "\<dots> \<le> 256 * 256 ^ length bs"
    using snoc by simp
  finally show ?case by simp
qed

lemma be_bytes_be_value: "be_bytes (length bs) (be_value bs) = bs"
proof (induction bs rule: rev_induct)
  case Nil
  then show ?case by simp
next
  case (snoc c bs)
  have "(256 * be_value bs + byte c) div 256 = be_value bs"
    by simp
  moreover have "(256 * be_value bs + byte c) mod 256 = byte c"
    by simp
  ultimately show ?case
    using snoc by simp
qed


section \<open>Addresses\<close>

type_synonym ipv4 = "32 word"
type_synonym ipv6 = "128 word"
type_synonym port = "16 word"

datatype ip_addr = V4 ipv4 | V6 ipv6

record socket_addr =
  sa_ip :: ip_addr
  sa_port :: port

definition octets4 :: "ipv4 \<Rightarrow> bytes" where
  "octets4 a = be_bytes 4 (unat a)"

definition octets6 :: "ipv6 \<Rightarrow> bytes" where
  "octets6 a = be_bytes 16 (unat a)"

definition from_octets4 :: "bytes \<Rightarrow> ipv4" where
  "from_octets4 bs = of_nat (be_value bs)"

definition from_octets6 :: "bytes \<Rightarrow> ipv6" where
  "from_octets6 bs = of_nat (be_value bs)"

definition to_be_bytes16 :: "port \<Rightarrow> bytes" where
  "to_be_bytes16 p = be_bytes 2 (unat p)"

definition from_be_bytes16 :: "bytes \<Rightarrow> port" where
  "from_be_bytes16 bs = of_nat (be_value bs)"

lemma length_octets [simp]:
  "length (octets4 a) = 4" "length (octets6 b) = 16" "length (to_be_bytes16 p) = 2"
  by (simp_all add: octets4_def octets6_def to_be_bytes16_def)

lemma from_octets4_octets4 [simp]: "from_octets4 (octets4 a) = a"
proof -
  have "unat a < 256 ^ 4" using unsigned_less [of a, where ?'a = nat] by simp
  then show ?thesis
    by (simp add: from_octets4_def octets4_def be_value_be_bytes)
qed

lemma from_octets6_octets6 [simp]: "from_octets6 (octets6 a) = a"
proof -
  have "unat a < 256 ^ 16" using unsigned_less [of a, where ?'a = nat] by simp
  then show ?thesis
    by (simp add: from_octets6_def octets6_def be_value_be_bytes)
qed

lemma from_be_bytes16_to_be_bytes16 [simp]: "from_be_bytes16 (to_be_bytes16 p) = p"
proof -
  have "unat p < 256 ^ 2" using unsigned_less [of p, where ?'a = nat] by simp
  then show ?thesis
    by (simp add: from_be_bytes16_def to_be_bytes16_def be_value_be_bytes)
qed

lemma octets4_from_octets4: "length bs = 4 \<Longrightarrow> octets4 (from_octets4 bs) = bs"
  using be_bytes_be_value [of bs] be_value_less [of bs]
  by (simp add: octets4_def from_octets4_def unat_of_nat take_bit_nat_def)


section \<open>Parsing\<close>

text \<open>
  The parser of \<open>core::net::parser\<close>. \<open>read_number digit radix max zeros bound s\<close> reads the digits
  at the front of \<open>s\<close>: at least one and at most \<open>max\<close>, no leading zero unless \<open>zeros\<close>, and a value
  below \<open>bound\<close>; it gives the value and the rest.
\<close>

definition hex_digit_value :: "char \<Rightarrow> nat" where
  "hex_digit_value c =
     (if is_ascii_digit c then byte c - 48
      else if byte_in 97 102 c then byte c - 87
      else byte c - 55)"

definition read_number ::
  "(char \<Rightarrow> bool) \<Rightarrow> (char \<Rightarrow> nat) \<Rightarrow> nat \<Rightarrow> nat \<Rightarrow> bool \<Rightarrow> nat \<Rightarrow> string \<Rightarrow> (nat \<times> string) option" where
  "read_number digit val radix max_digits zeros bound s =
     (let ds = takeWhile digit s;
          n = foldl (\<lambda>n c. radix * n + val c) 0 ds
      in if length ds > max_digits \<or> ds = [] \<or>
            (\<not> zeros \<and> hd ds = CHR ''0'' \<and> length ds > 1) \<or> n \<ge> bound
         then None else Some (n, drop (length ds) s))"

definition read_octet :: "string \<Rightarrow> (nat \<times> string) option" where
  "read_octet = read_number is_ascii_digit digit_value 10 3 False 256"

definition read_hextet :: "string \<Rightarrow> (nat \<times> string) option" where
  "read_hextet = read_number is_ascii_hexdigit hex_digit_value 16 4 True 65536"

definition read_char :: "char \<Rightarrow> string \<Rightarrow> string option" where
  "read_char c s = (case s of [] \<Rightarrow> None | d # r \<Rightarrow> if d = c then Some r else None)"

text \<open>\<open>read_separator\<close>: the separator is read before every element but the first.\<close>

definition read_separator ::
  "char \<Rightarrow> nat \<Rightarrow> (string \<Rightarrow> ('a \<times> string) option) \<Rightarrow> string \<Rightarrow> ('a \<times> string) option" where
  "read_separator sep i inner s =
     (if i = 0 then inner s
      else (case read_char sep s of None \<Rightarrow> None | Some r \<Rightarrow> inner r))"

fun read_ipv4_groups :: "nat \<Rightarrow> nat \<Rightarrow> string \<Rightarrow> (nat list \<times> string) option" where
  "read_ipv4_groups 0 i s = Some ([], s)"
| "read_ipv4_groups (Suc k) i s =
     (case read_separator (CHR ''.'') i read_octet s of
        None \<Rightarrow> None
      | Some (n, r) \<Rightarrow> map_option (\<lambda>(ns, r'). (n # ns, r')) (read_ipv4_groups k (Suc i) r))"

definition octet_list_value :: "nat list \<Rightarrow> nat" where
  "octet_list_value ns = foldl (\<lambda>v n. 256 * v + n) 0 ns"

definition read_ipv4_addr :: "string \<Rightarrow> (ipv4 \<times> string) option" where
  "read_ipv4_addr s =
     map_option (\<lambda>(ns, r). (of_nat (octet_list_value ns), r)) (read_ipv4_groups 4 0 s)"

text \<open>
  \<open>read_groups limit i s\<close>: up to \<open>limit - i\<close> more groups of an IPv6 literal, with a dotted IPv4
  tail allowed while two groups are left; the flag says that such a tail ended the list.
\<close>

fun read_groups :: "nat \<Rightarrow> nat \<Rightarrow> string \<Rightarrow> nat list \<times> bool \<times> string" where
  "read_groups 0 i s = ([], False, s)"
| "read_groups (Suc k) i s =
     (case (if 0 < k then read_separator (CHR '':'') i read_ipv4_addr s else None) of
        Some (a, r) \<Rightarrow> ([unat a div 65536, unat a mod 65536], True, r)
      | None \<Rightarrow>
          (case read_separator (CHR '':'') i read_hextet s of
             None \<Rightarrow> ([], False, s)
           | Some (g, r) \<Rightarrow> (case read_groups k (Suc i) r of (gs, v4, r') \<Rightarrow> (g # gs, v4, r'))))"

definition groups_value :: "nat list \<Rightarrow> nat" where
  "groups_value gs = foldl (\<lambda>v g. 65536 * v + g) 0 gs"

definition read_ipv6_addr :: "string \<Rightarrow> (ipv6 \<times> string) option" where
  "read_ipv6_addr s =
     (case read_groups 8 0 s of (head, head_ipv4, r) \<Rightarrow>
        if length head = 8 then Some (of_nat (groups_value head), r)
        else if head_ipv4 then None
        else (case strip_prefix ''::'' r of
           None \<Rightarrow> None
         | Some r1 \<Rightarrow>
             (case read_groups (8 - (length head + 1)) 0 r1 of (tail, _, r2) \<Rightarrow>
                Some (of_nat (groups_value
                  (head @ replicate (8 - length head - length tail) 0 @ tail)), r2))))"

text \<open>\<open>parse_with\<close>: the literal must take the whole input.\<close>

definition parse_with :: "(string \<Rightarrow> ('a \<times> string) option) \<Rightarrow> string \<Rightarrow> 'a option" where
  "parse_with p s = (case p s of Some (x, []) \<Rightarrow> Some x | _ \<Rightarrow> None)"

definition parse_ipv6 :: "string \<Rightarrow> ipv6 option" where
  "parse_ipv6 s = parse_with read_ipv6_addr s"

definition parse_ipv4 :: "string \<Rightarrow> ipv4 option" where
  "parse_ipv4 s = (if length s > 15 then None else parse_with read_ipv4_addr s)"

definition parse_ip :: "string \<Rightarrow> ip_addr option" where
  "parse_ip s =
     parse_with (\<lambda>s. case read_ipv4_addr s of
          Some (a, r) \<Rightarrow> Some (V4 a, r)
        | None \<Rightarrow> map_option (\<lambda>(a, r). (V6 a, r)) (read_ipv6_addr s)) s"

end
