(* ===== verification/Http1_Target.thy ===== *)
theory Http1_Target
  imports Http1_Types Net_Addr
begin

text \<open>
  Request targets and authorities, \<open>crates/fluxheim-protocol/src/http1_target.rs\<close>.
\<close>

section \<open>Definitions\<close>

datatype request_target =
    Origin (t_raw: string) (t_path: string) (t_query: "string option")
  | AbsoluteUri (t_raw: string) (t_scheme: string) (t_authority: "string option")
      (t_opath: "string option") (t_query: "string option")
  | AuthorityForm (t_raw: string) (t_port: nat)
  | Asterisk

definition target_has_forbidden_byte :: "string \<Rightarrow> bool" where
  "target_has_forbidden_byte value \<longleftrightarrow>
     \<not> is_ascii value \<or> list_ex (\<lambda>c. byte_in 0 0x20 c \<or> byte c = 0x7F) value"

definition target_contains_scheme_slashes :: "string \<Rightarrow> bool" where
  "target_contains_scheme_slashes target =
     (case str_find (CHR '':'') target of
        None \<Rightarrow> False
      | Some colon \<Rightarrow>
          (case drop (colon + 1) target of c # _ \<Rightarrow> c = CHR ''/'' | [] \<Rightarrow> False))"

definition find_path_or_query_start :: "string \<Rightarrow> nat option" where
  "find_path_or_query_start value = position (\<lambda>c. c = CHR ''/'' \<or> c = CHR ''?'') value"

definition uri_component_byte_allowed :: "char \<Rightarrow> bool \<Rightarrow> bool" where
  "uri_component_byte_allowed c query \<longleftrightarrow>
     is_ascii_alphanumeric c \<or>
     byte c \<in> {0x2D, 0x2E, 0x5F, 0x7E, 0x21, 0x24, 0x26, 0x27, 0x28, 0x29, 0x2A, 0x2B, 0x2C, 0x3B, 0x3D,
               0x3A, 0x40, 0x2F} \<or>
     query \<and> c = CHR ''?''"

fun validate_uri_component :: "string \<Rightarrow> bool \<Rightarrow> unit h1result" where
  "validate_uri_component [] query = Ok ()"
| "validate_uri_component (c # cs) query =
     (if c = CHR ''%'' then
        (case cs of
           a # b # r \<Rightarrow>
             if \<not> is_ascii_hexdigit a \<or> \<not> is_ascii_hexdigit b then Err InvalidRequestTarget
             else validate_uri_component r query
         | _ \<Rightarrow> Err InvalidRequestTarget)
      else if uri_component_byte_allowed c query then validate_uri_component cs query
      else Err InvalidRequestTarget)"

definition validate_query :: "string \<Rightarrow> unit h1result" where
  "validate_query value = validate_uri_component value True"

definition validate_path :: "string \<Rightarrow> unit h1result" where
  "validate_path value =
     (if value = [] then Err InvalidRequestTarget else validate_uri_component value False)"

definition split_query :: "string \<Rightarrow> (string \<times> string option) h1result" where
  "split_query value =
     (case str_find (CHR ''?'') value of
        None \<Rightarrow> and_then (validate_path value) (\<lambda>_. Ok (value, None))
      | Some i \<Rightarrow>
          and_then (validate_path (take i value)) (\<lambda>_.
          and_then (validate_query (drop (i + 1) value)) (\<lambda>_.
            Ok (take i value, Some (drop (i + 1) value)))))"

definition validate_authority_port :: "string \<Rightarrow> unit h1result" where
  "validate_authority_port port =
     (if port = [] \<or> \<not> list_all is_ascii_digit port then Err InvalidAuthority
      else (case parse_u16 port of Some _ \<Rightarrow> Ok () | None \<Rightarrow> Err InvalidAuthority))"

definition authority_forbidden :: "char \<Rightarrow> bool" where
  "authority_forbidden c \<longleftrightarrow>
     byte_in 0 0x20 c \<or> byte_in 0x7F 0xFF c \<or>
     c \<in> {CHR ''/'', CHR ''?'', CHR ''#'', CHR 0x5C, CHR ''@'', CHR '',''}"

definition invalid_label :: "string \<Rightarrow> bool" where
  "invalid_label label \<longleftrightarrow>
     label = [] \<or> starts_with ''-'' label \<or> ends_with ''-'' label \<or>
     \<not> list_all (\<lambda>c. is_ascii_alphanumeric c \<or> c = CHR ''-'') label"

definition validate_bracketed :: "string \<Rightarrow> unit h1result" where
  "validate_bracketed bracketed =
     (case str_find (CHR '']'') bracketed of
        None \<Rightarrow> Err InvalidAuthority
      | Some close \<Rightarrow>
          (case parse_ipv6 (take close bracketed) of
             None \<Rightarrow> Err InvalidAuthority
           | Some _ \<Rightarrow>
               let sfx = drop (close + 1) bracketed
               in if sfx = [] then Ok ()
                  else (case strip_prefix '':'' sfx of
                     None \<Rightarrow> Err InvalidAuthority
                   | Some port \<Rightarrow> validate_authority_port port)))"

definition validate_http1_authority :: "string \<Rightarrow> unit h1result" where
  "validate_http1_authority value =
     (if value = [] \<or> list_ex authority_forbidden value then Err InvalidAuthority
      else (case strip_prefix ''['' value of
        Some bracketed \<Rightarrow> validate_bracketed bracketed
      | None \<Rightarrow>
          if CHR ''['' \<in> set value \<or> CHR '']'' \<in> set value \<or> count_list value (CHR '':'') > 1
          then Err InvalidAuthority
          else
            let (host, port) =
                  (case split_once (CHR '':'') value of
                     None \<Rightarrow> (value, None)
                   | Some (h, p) \<Rightarrow> (h, Some p))
            in if host = [] \<or> starts_with ''.'' host \<or> ends_with ''.'' host \<or>
                  list_ex invalid_label (split_on (CHR ''.'') host)
               then Err InvalidAuthority
               else (case port of None \<Rightarrow> Ok () | Some p \<Rightarrow> validate_authority_port p)))"

definition authority_form_colon :: "string \<Rightarrow> nat h1result" where
  "authority_form_colon authority =
     (if authority \<noteq> [] \<and> hd authority = CHR ''['' then
        (case position (\<lambda>c. c = CHR '']'') authority of
           None \<Rightarrow> Err InvalidRequestTarget
         | Some close \<Rightarrow>
             (case drop (close + 1) authority of
                c # _ \<Rightarrow> if c = CHR '':'' then Ok (close + 1) else Err InvalidRequestTarget
              | [] \<Rightarrow> Err InvalidRequestTarget))
      else
        (case str_find (CHR '':'') authority of
           None \<Rightarrow> Err InvalidRequestTarget
         | Some first \<Rightarrow>
             if CHR '':'' \<in> set (drop (first + 1) authority) then Err InvalidRequestTarget
             else Ok first))"

definition authority_form_port :: "string \<Rightarrow> nat h1result" where
  "authority_form_port authority =
     and_then (authority_form_colon authority) (\<lambda>colon.
       if colon = 0 \<or> colon + 1 = length authority then Err InvalidRequestTarget
       else ok_or (parse_u16 (drop (colon + 1) authority)) InvalidRequestTarget)"

definition parse_path_and_query :: "string \<Rightarrow> (string option \<times> string option) h1result" where
  "parse_path_and_query path_and_query =
     (if path_and_query = [] then Ok (None, None)
      else (case strip_prefix ''?'' path_and_query of
         Some query \<Rightarrow> and_then (validate_query query) (\<lambda>_. Ok (None, Some query))
       | None \<Rightarrow>
           and_then (split_query path_and_query) (\<lambda>(path, query). Ok (Some path, query))))"

definition parse_absolute_uri :: "string \<Rightarrow> nat \<Rightarrow> request_target h1result" where
  "parse_absolute_uri target colon =
     (let scheme = take colon target
      in if \<not> eq_ignore_ascii_case scheme ''http'' \<and> \<not> eq_ignore_ascii_case scheme ''https''
         then Err InvalidRequestTarget
         else
           and_then (ok_or (strip_prefix ''//'' (drop (colon + 1) target)) InvalidRequestTarget)
             (\<lambda>after_slashes.
               let authority_end =
                     (case find_path_or_query_start after_slashes of
                        Some i \<Rightarrow> i | None \<Rightarrow> length after_slashes);
                   authority = take authority_end after_slashes;
                   path_and_query = drop authority_end after_slashes
               in and_then (validate_http1_authority authority) (\<lambda>_.
                  and_then (parse_path_and_query path_and_query) (\<lambda>(path, query).
                    Ok (AbsoluteUri target scheme (Some authority) path query)))))"

definition http1_request_target :: "string \<Rightarrow> string \<Rightarrow> request_target h1result" where
  "http1_request_target m target =
     (if target = [] \<or> target_has_forbidden_byte target then Err InvalidRequestTarget
      else if target = ''*'' then
        (if eq_ignore_ascii_case m ''OPTIONS'' then Ok Asterisk else Err InvalidRequestTarget)
      else if eq_ignore_ascii_case m ''CONNECT'' then
        (if starts_with ''/'' target \<or> target_contains_scheme_slashes target
         then Err InvalidRequestTarget
         else
           and_then (authority_form_port target) (\<lambda>port.
           and_then (validate_http1_authority target) (\<lambda>_.
             Ok (AuthorityForm target port))))
      else if starts_with ''//'' target then Err InvalidRequestTarget
      else if starts_with ''/'' target then
        and_then (split_query target) (\<lambda>(path, query). Ok (Origin target path query))
      else (case str_find (CHR '':'') target of
        Some colon \<Rightarrow> parse_absolute_uri target colon
      | None \<Rightarrow> Err InvalidRequestTarget))"


section \<open>Components\<close>

definition component_bytes :: "bool \<Rightarrow> string \<Rightarrow> bool" where
  "component_bytes q v \<longleftrightarrow> list_all (\<lambda>c. uri_component_byte_allowed c q \<or> c = CHR ''%'') v"

lemma hexdigit_allowed: "is_ascii_hexdigit c \<Longrightarrow> uri_component_byte_allowed c q"
proof -
  assume "is_ascii_hexdigit c"
  then have "is_ascii_alphanumeric c" by (auto simp: ascii_class_defs)
  then show ?thesis by (simp add: uri_component_byte_allowed_def)
qed

lemma validate_uri_component_bytes: "validate_uri_component v q = Ok () \<Longrightarrow> component_bytes q v"
proof (induction v q rule: validate_uri_component.induct)
  case (1 q)
  then show ?case by (simp add: component_bytes_def)
next
  case (2 c cs q)
  show ?case
  proof (cases "c = CHR ''%''")
    case True
    with "2.prems" obtain a b r where cs: "cs = a # b # r"
      and h: "is_ascii_hexdigit a" "is_ascii_hexdigit b" and r: "validate_uri_component r q = Ok ()"
      by (auto split: list.splits if_splits)
    have "component_bytes q r"
      using "2.IH"(1) [OF True cs refl _ r] h by simp
    with cs h True show ?thesis by (simp add: component_bytes_def hexdigit_allowed)
  next
    case False
    with 2 show ?thesis by (auto simp: component_bytes_def split: if_splits)
  qed
qed

definition query_part :: "string option \<Rightarrow> string" where
  "query_part q = (case q of None \<Rightarrow> [] | Some s \<Rightarrow> CHR ''?'' # s)"

lemma validate_path_Ok: "validate_path v = Ok () \<Longrightarrow> v \<noteq> [] \<and> component_bytes False v"
  by (auto simp: validate_path_def intro: validate_uri_component_bytes split: if_splits)

lemma validate_query_Ok: "validate_query v = Ok () \<Longrightarrow> component_bytes True v"
  by (simp add: validate_query_def validate_uri_component_bytes)

lemma split_query_Ok:
  assumes "split_query v = Ok (path, query)"
  shows "v = path @ query_part query \<and> path \<noteq> [] \<and> component_bytes False path \<and>
    (\<forall>q. query = Some q \<longrightarrow> component_bytes True q)"
proof (cases "str_find (CHR ''?'') v")
  case None
  with assms have "path = v" "query = None" "validate_path v = Ok ()"
    by (auto simp: split_query_def result_simps)
  then show ?thesis
    using validate_path_Ok [of v] by (simp add: query_part_def)
next
  case (Some i)
  then have v: "v = take i v @ CHR ''?'' # drop (i + 1) v"
    using position_take_drop(1,3) [of "\<lambda>c. c = CHR ''?''" v i] by (simp add: str_find_def)
  from assms Some have r: "path = take i v" "query = Some (drop (i + 1) v)"
    "validate_path path = Ok ()" "validate_query (drop (i + 1) v) = Ok ()"
    by (auto simp: split_query_def result_simps)
  have "v = path @ query_part query"
    using v unfolding r(1,2) query_part_def option.case .
  with validate_path_Ok [OF r(3)] validate_query_Ok [OF r(4)] r(2) show ?thesis
    by (metis option.inject)
qed


section \<open>Authorities\<close>

text \<open>What a valid authority is: a host, optionally followed by a colon and a decimal port.\<close>

definition host_name_ok :: "string \<Rightarrow> bool" where
  "host_name_ok h \<longleftrightarrow> (\<forall>l \<in> set (split_on (CHR ''.'') h). \<not> invalid_label l)"

definition host_literal_ok :: "string \<Rightarrow> bool" where
  "host_literal_ok h \<longleftrightarrow>
     (\<exists>addr. h = CHR ''['' # addr @ '']'' \<and> CHR '']'' \<notin> set addr \<and> parse_ipv6 addr \<noteq> None)"

definition port_ok :: "string \<Rightarrow> bool" where
  "port_ok p \<longleftrightarrow> p \<noteq> [] \<and> list_all is_ascii_digit p \<and> digits_value p < 65536"

definition authority_ok :: "string \<Rightarrow> bool" where
  "authority_ok a \<longleftrightarrow>
     (\<forall>c \<in> set a. \<not> authority_forbidden c) \<and>
     (\<exists>host. (host_name_ok host \<or> host_literal_ok host) \<and>
        (a = host \<or> (\<exists>port. a = host @ CHR '':'' # port \<and> port_ok port)))"

lemma validate_authority_port_iff: "validate_authority_port p = Ok () \<longleftrightarrow> port_ok p"
  by (auto simp: validate_authority_port_def port_ok_def parse_u16_def parse_unsigned_digits)

lemma validate_bracketed_Ok:
  assumes "validate_bracketed b = Ok ()"
  shows "\<exists>host. host_literal_ok host \<and>
    (CHR ''['' # b = host \<or> (\<exists>port. CHR ''['' # b = host @ CHR '':'' # port \<and> port_ok port))"
proof -
  obtain close where close: "str_find (CHR '']'') b = Some close"
    using assms by (cases "str_find (CHR '']'') b") (auto simp: validate_bracketed_def)
  let ?addr = "take close b" and ?sfx = "drop (close + 1) b"
  have b: "b = ?addr @ CHR '']'' # ?sfx" and nb: "CHR '']'' \<notin> set ?addr"
    using position_take_drop [of "\<lambda>c. c = CHR '']''" b close] close by (auto simp: str_find_def)
  have v6: "parse_ipv6 ?addr \<noteq> None"
    using assms close by (auto simp: validate_bracketed_def split: option.splits)
  let ?host = "CHR ''['' # ?addr @ '']''"
  have lit: "host_literal_ok ?host"
    using nb v6 by (auto simp: host_literal_ok_def)
  have eq: "CHR ''['' # b = ?host @ ?sfx"
    using b by simp
  show ?thesis
  proof (cases "?sfx = []")
    case True
    with eq have "CHR ''['' # b = ?host" by simp
    with lit show ?thesis by blast
  next
    case False
    with assms close v6 obtain port where "strip_prefix '':'' ?sfx = Some port"
      "validate_authority_port port = Ok ()"
      by (auto simp: validate_bracketed_def Let_def simp del: strip_prefix.simps split: option.splits)
    then have "?sfx = CHR '':'' # port" "port_ok port"
      by (simp_all add: strip_prefix_eq_Some validate_authority_port_iff del: strip_prefix.simps)
    with eq have "CHR ''['' # b = ?host @ CHR '':'' # port" by simp
    with lit \<open>port_ok port\<close> show ?thesis by blast
  qed
qed

lemma validate_http1_authority_Ok:
  assumes "validate_http1_authority a = Ok ()"
  shows "authority_ok a"
proof -
  have ne: "a \<noteq> []" and forb: "\<forall>c \<in> set a. \<not> authority_forbidden c"
    using assms by (auto simp: validate_http1_authority_def list_ex_iff split: if_splits)
  have "\<exists>host. (host_name_ok host \<or> host_literal_ok host) \<and>
      (a = host \<or> (\<exists>port. a = host @ CHR '':'' # port \<and> port_ok port))"
  proof (cases "strip_prefix ''['' a")
    case (Some b)
    then have "a = CHR ''['' # b" by (simp add: strip_prefix_eq_Some del: strip_prefix.simps)
    moreover have "validate_bracketed b = Ok ()"
      using assms Some by (auto simp: validate_http1_authority_def split: if_splits)
    ultimately show ?thesis
      using validate_bracketed_Ok by blast
  next
    case None
    show ?thesis
    proof (cases "split_once (CHR '':'') a")
      case None' : None
      with assms None have "host_name_ok a"
        by (auto simp: validate_http1_authority_def host_name_ok_def list_ex_iff split: if_splits)
      then show ?thesis by blast
    next
      case (Some hp)
      obtain h p where hp: "hp = (h, p)" by (cases hp)
      with assms None Some have "host_name_ok h" "validate_authority_port p = Ok ()"
        by (auto simp: validate_http1_authority_def host_name_ok_def list_ex_iff split: if_splits)
      moreover have "a = h @ CHR '':'' # p"
        using Some hp by (simp add: split_once_eq_Some)
      ultimately show ?thesis
        by (auto simp: validate_authority_port_iff)
    qed
  qed
  with forb show ?thesis by (simp add: authority_ok_def)
qed


section \<open>Targets\<close>

text \<open>The text of a parsed target, from its parts.\<close>

fun print_target :: "request_target \<Rightarrow> string" where
  "print_target (Origin raw path query) = path @ query_part query"
| "print_target (AbsoluteUri raw scheme authority path query) =
     scheme @ ''://'' @ (case authority of None \<Rightarrow> [] | Some a \<Rightarrow> a) @
     (case path of None \<Rightarrow> [] | Some p \<Rightarrow> p) @ query_part query"
| "print_target (AuthorityForm raw port) = raw"
| "print_target Asterisk = ''*''"

text \<open>What each form guarantees of its parts.\<close>

fun target_ok :: "request_target \<Rightarrow> bool" where
  "target_ok (Origin raw path query) \<longleftrightarrow>
     path \<noteq> [] \<and> hd path = CHR ''/'' \<and> \<not> prefix ''//'' path \<and> component_bytes False path \<and>
     (\<forall>q. query = Some q \<longrightarrow> component_bytes True q)"
| "target_ok (AbsoluteUri raw scheme authority path query) \<longleftrightarrow>
     (eq_ignore_ascii_case scheme ''http'' \<or> eq_ignore_ascii_case scheme ''https'') \<and>
     (\<exists>a. authority = Some a \<and> authority_ok a) \<and>
     (\<forall>p. path = Some p \<longrightarrow> p \<noteq> [] \<and> hd p = CHR ''/'' \<and> component_bytes False p) \<and>
     (\<forall>q. query = Some q \<longrightarrow> component_bytes True q)"
| "target_ok (AuthorityForm raw port) \<longleftrightarrow> authority_ok raw \<and> port < 65536"
| "target_ok Asterisk \<longleftrightarrow> True"

lemma find_start_hd:
  assumes "n = (case find_path_or_query_start v of Some i \<Rightarrow> i | None \<Rightarrow> length v)"
    and "drop n v \<noteq> []"
  shows "hd (drop n v) = CHR ''/'' \<or> hd (drop n v) = CHR ''?''"
proof (cases "find_path_or_query_start v")
  case None
  with assms show ?thesis by simp
next
  case (Some i)
  with assms have "i = n" by simp
  with Some position_Some_iff [of "\<lambda>c. c = CHR ''/'' \<or> c = CHR ''?''" v n] show ?thesis
    by (auto simp: find_path_or_query_start_def hd_drop_conv_nth)
qed

lemma parse_path_and_query_Ok:
  assumes "parse_path_and_query pq = Ok (path, query)" and "pq = [] \<or> hd pq = CHR ''/'' \<or> hd pq = CHR ''?''"
  shows "pq = (case path of None \<Rightarrow> [] | Some p \<Rightarrow> p) @ query_part query \<and>
    (\<forall>p. path = Some p \<longrightarrow> p \<noteq> [] \<and> hd p = CHR ''/'' \<and> component_bytes False p) \<and>
    (\<forall>q. query = Some q \<longrightarrow> component_bytes True q)"
proof -
  consider (none) "pq = []" | (query) q where "pq = CHR ''?'' # q"
    | (path) "pq \<noteq> []" "hd pq = CHR ''/''" "strip_prefix ''?'' pq = None"
    using assms(2) by (cases pq) auto
  then show ?thesis
  proof cases
    case none
    with assms(1) show ?thesis by (auto simp: parse_path_and_query_def query_part_def)
  next
    case query
    with assms(1) have "path = None" "query = Some q" "validate_query q = Ok ()"
      by (auto simp: parse_path_and_query_def result_simps)
    with query show ?thesis by (simp add: query_part_def validate_query_Ok)
  next
    case path
    with assms(1) obtain p where p: "path = Some p" "split_query pq = Ok (p, query)"
      by (auto simp: parse_path_and_query_def result_simps simp del: strip_prefix.simps)
    from split_query_Ok [OF p(2)] have sq: "pq = p @ query_part query" "p \<noteq> []"
      "component_bytes False p" "\<forall>q. query = Some q \<longrightarrow> component_bytes True q"
      by blast+
    with path(2) have "hd p = CHR ''/''" by simp
    with sq p(1) show ?thesis by simp
  qed
qed

lemma parse_absolute_uri_Ok:
  assumes "parse_absolute_uri t colon = Ok r" and "str_find (CHR '':'') t = Some colon"
  shows "print_target r = t \<and> t_raw r = t \<and> target_ok r \<and> r \<noteq> Asterisk"
proof -
  let ?sch = "take colon t"
  from assms(1) obtain after where sch: "eq_ignore_ascii_case ?sch ''http'' \<or> eq_ignore_ascii_case ?sch ''https''"
    and after: "strip_prefix ''//'' (drop (colon + 1) t) = Some after"
    by (auto simp: parse_absolute_uri_def Let_def result_simps simp del: strip_prefix.simps split: if_splits)
  define n where "n = (case find_path_or_query_start after of Some i \<Rightarrow> i | None \<Rightarrow> length after)"
  from assms(1) sch after obtain path query where a: "validate_http1_authority (take n after) = Ok ()"
    and pq: "parse_path_and_query (drop n after) = Ok (path, query)"
    and r: "r = AbsoluteUri t ?sch (Some (take n after)) path query"
    by (auto simp: parse_absolute_uri_def Let_def result_simps n_def simp del: strip_prefix.simps)
  have hd: "drop n after = [] \<or> hd (drop n after) = CHR ''/'' \<or> hd (drop n after) = CHR ''?''"
    using find_start_hd [OF n_def] by blast
  note parts = parse_path_and_query_Ok [OF pq hd]
  have "t = ?sch @ CHR '':'' # drop (colon + 1) t"
    using position_take_drop(1,3) [of "\<lambda>c. c = CHR '':''" t colon] assms(2) by (simp add: str_find_def)
  also have "drop (colon + 1) t = ''//'' @ take n after @ drop n after"
    using after by (simp add: strip_prefix_eq_Some del: strip_prefix.simps)
  finally have "t = ?sch @ ''://'' @ take n after @ drop n after" by simp
  with parts have "print_target r = t"
    unfolding r by (simp only: print_target.simps option.case append_assoc)
  with parts sch validate_http1_authority_Ok [OF a] r show ?thesis by simp
qed

lemma authority_form_port_less: "authority_form_port a = Ok p \<Longrightarrow> p < 65536"
  by (auto simp: authority_form_port_def result_simps parse_u16_def dest!: parse_unsigned_less
      split: if_splits)

lemma http1_request_target_Ok:
  assumes "http1_request_target m t = Ok r"
  shows "print_target r = t \<and> (r = Asterisk \<or> t_raw r = t) \<and> target_ok r"
proof -
  consider (asterisk) "t = ''*''" "r = Asterisk"
    | (connect) port where "authority_form_port t = Ok port" "validate_http1_authority t = Ok ()"
        "r = AuthorityForm t port"
    | (origin) path query where "\<not> starts_with ''//'' t" "starts_with ''/'' t"
        "split_query t = Ok (path, query)" "r = Origin t path query"
    | (absolute) colon where "str_find (CHR '':'') t = Some colon" "parse_absolute_uri t colon = Ok r"
    using assms
    by (auto simp: http1_request_target_def result_simps split: if_splits option.splits)
  then show ?thesis
  proof cases
    case asterisk
    then show ?thesis by simp
  next
    case connect
    then show ?thesis
      by (simp add: validate_http1_authority_Ok authority_form_port_less)
  next
    case origin
    from split_query_Ok [OF origin(3)] have sq: "t = path @ query_part query" "path \<noteq> []"
      "component_bytes False path" "\<forall>q. query = Some q \<longrightarrow> component_bytes True q"
      by blast+
    from origin(2) sq(1,2) have "hd path = CHR ''/''"
      by (cases path) (auto simp: starts_with_slash)
    moreover have "\<not> prefix ''//'' path"
      using origin(1) sq(1) by (auto simp: starts_with_iff intro: prefix_prefix)
    ultimately show ?thesis using sq origin(4) by simp
  next
    case absolute
    then show ?thesis using parse_absolute_uri_Ok by blast
  qed
qed

text \<open>
  C5. Request targets are parsed without loss. An accepted target, put together again from the parts
  the parser returns, is the target as received; its path starts with a single slash, path and
  query hold only bytes RFC 3986 allows there, a scheme is \<open>http\<close> or \<open>https\<close>, and an authority is a
  host name or a bracketed IPv6 literal with an optional port below 65536, free of user info,
  white space and delimiters.
\<close>

theorem request_target_lossless:
  assumes "http1_request_target m t = Ok r"
  shows "print_target r = t \<and> (r = Asterisk \<or> t_raw r = t) \<and> target_ok r"
  using assms by (rule http1_request_target_Ok)

theorem request_target_lossless_witness:
  "\<exists>r. http1_request_target ''GET'' ''http://example.org:8080/a%20b?x=1'' = Ok r \<and>
     print_target r = ''http://example.org:8080/a%20b?x=1'' \<and> target_ok r"
proof -
  have "http1_request_target ''GET'' ''http://example.org:8080/a%20b?x=1'' =
      Ok (AbsoluteUri ''http://example.org:8080/a%20b?x=1'' ''http'' (Some ''example.org:8080'')
            (Some ''/a%20b'') (Some ''x=1''))"
    by code_simp
  from request_target_lossless [OF this] this show ?thesis by blast
qed

end
