(* ===== verification/Http1_Head.thy ===== *)
theory Http1_Head
  imports Http1_Connection Http1_Target
begin

text \<open>
  Request heads of \<open>crates/fluxheim-protocol/src/http1.rs\<close>: the search for the end of the head, the
  request line, the header lines, body framing, the Host field, the validation of a message and the
  buffer that collects a head from the pieces the network delivers.
\<close>

section \<open>Definitions\<close>

record raw_request_head =
  rh_method :: string
  rh_target :: string
  rh_version :: http1_version
  rh_headers :: "http1_header list"
  rh_head_len :: nat

record request_validation =
  rv_request_target :: request_target
  rv_body_framing :: http1_body_framing
  rv_connection_directive :: connection_directive
  rv_effective_authority :: "string option"

record validated_request_head =
  vh_head :: raw_request_head
  vh_validation :: request_validation

definition complete_head_len :: "bytes \<Rightarrow> nat \<Rightarrow> nat option h1result" where
  "complete_head_len input max_bytes =
     (let search_len = min (length input) (saturating_add max_bytes 4)
      in case find (\<lambda>i. take 4 (drop i input) = [CR, LF, CR, LF]) [0..<search_len - 3] of
           Some i \<Rightarrow> if i + 4 > max_bytes then Err HeadTooLarge else Ok (Some (i + 4))
         | None \<Rightarrow> if length input > max_bytes then Err HeadTooLarge else Ok None)"

definition parse_content_length :: "string \<Rightarrow> nat h1result" where
  "parse_content_length value =
     (let trimmed = trim value
      in if trimmed = [] \<or> \<not> list_all is_ascii_digit trimmed then Err InvalidContentLength
         else ok_or (parse_u64 trimmed) InvalidContentLength)"

fun transfer_codings :: "string list \<Rightarrow> nat \<Rightarrow> bool \<Rightarrow> (nat \<times> bool) h1result" where
  "transfer_codings [] codings chunked = Ok (codings, chunked)"
| "transfer_codings (c # cs) codings chunked =
     (let coding = trim c
      in if coding = [] \<or> \<not> http_token_valid coding then Err UnsupportedTransferEncoding
         else transfer_codings cs (saturating_add codings 1) (eq_ignore_ascii_case coding ''chunked''))"

definition parse_transfer_encoding :: "string \<Rightarrow> http1_body_framing h1result" where
  "parse_transfer_encoding value =
     and_then (transfer_codings (split_on (CHR '','') value) 0 False) (\<lambda>(codings, chunked).
       if codings = 1 \<and> chunked then Ok Chunked else Err UnsupportedTransferEncoding)"

fun framing_fields ::
    "http1_version \<Rightarrow> http1_header list \<Rightarrow> nat option \<Rightarrow> http1_body_framing option \<Rightarrow>
     (http1_body_framing option \<times> nat option) h1result" where
  "framing_fields version [] content_length transfer_encoding = Ok (transfer_encoding, content_length)"
| "framing_fields version (h # hs) content_length transfer_encoding =
     (if eq_ignore_ascii_case (hdr_name h) ''content-length'' then
        and_then (parse_content_length (hdr_value h)) (\<lambda>parsed.
          if content_length \<noteq> None then Err DuplicateContentLength
          else framing_fields version hs (Some parsed) transfer_encoding)
      else if eq_ignore_ascii_case (hdr_name h) ''transfer-encoding'' then
        (if version = Http10 then Err UnsupportedTransferEncoding
         else if transfer_encoding \<noteq> None then Err UnsupportedTransferEncoding
         else and_then (parse_transfer_encoding (hdr_value h)) (\<lambda>f.
           framing_fields version hs content_length (Some f)))
      else framing_fields version hs content_length transfer_encoding)"

definition http1_request_body_framing ::
    "http1_version \<Rightarrow> http1_header list \<Rightarrow> http1_body_framing h1result" where
  "http1_request_body_framing version headers =
     and_then (framing_fields version headers None None) (\<lambda>r.
       case r of
         (Some _, Some _) \<Rightarrow> Err ConflictingBodyFraming
       | (Some framing, None) \<Rightarrow> Ok framing
       | (None, None) \<Rightarrow> Ok NoBody
       | (None, Some len) \<Rightarrow> if len = 0 then Ok NoBody else Ok (ContentLength len))"

fun host_field :: "http1_header list \<Rightarrow> string option \<Rightarrow> string option h1result" where
  "host_field [] host = Ok host"
| "host_field (h # hs) host =
     (if eq_ignore_ascii_case (hdr_name h) ''host'' then
        (if host \<noteq> None then Err DuplicateHost
         else
           let value = trim (hdr_value h)
           in and_then (map_err (\<lambda>_. InvalidHost) (validate_http1_authority value)) (\<lambda>_.
                host_field hs (Some value)))
      else host_field hs host)"

definition http1_optional_host :: "http1_header list \<Rightarrow> string option h1result" where
  "http1_optional_host headers = host_field headers None"

definition http1_required_host :: "http1_header list \<Rightarrow> string h1result" where
  "http1_required_host headers =
     and_then (http1_optional_host headers) (\<lambda>host. ok_or host MissingHost)"

definition parse_request_line :: "string \<Rightarrow> (string \<times> string \<times> http1_version) h1result" where
  "parse_request_line line =
     (case split_on SP line of
        method # target # version # rest \<Rightarrow>
          if rest \<noteq> [] \<or> method = [] \<or> target = [] then Err InvalidRequestLine
          else if \<not> http_token_valid method then Err InvalidRequestLine
          else
            and_then
              (if version = ''HTTP/1.0'' then Ok Http10
               else if version = ''HTTP/1.1'' then Ok Http11
               else Err UnsupportedVersion)
              (\<lambda>v. and_then (http1_request_target method target) (\<lambda>_. Ok (method, target, v)))
      | _ \<Rightarrow> Err InvalidRequestLine)"

fun parse_header_lines ::
    "http1_head_limits \<Rightarrow> string list \<Rightarrow> http1_header list \<Rightarrow> http1_header list h1result" where
  "parse_header_lines limits [] headers = Ok headers"
| "parse_header_lines limits (line # lines) headers =
     (if line = [] then Ok headers
      else if length line > max_header_line_bytes limits then Err HeaderLineTooLong
      else if starts_with [SP] line \<or> starts_with [TAB] line then Err ObsoleteLineFolding
      else if length headers \<ge> max_header_count limits then Err HeaderCountExceeded
      else and_then (parse_header_line line) (\<lambda>h. parse_header_lines limits lines (headers @ [h])))"

definition parse_http1_request_head_raw ::
    "bytes \<Rightarrow> http1_head_limits \<Rightarrow> raw_request_head option h1result" where
  "parse_http1_request_head_raw input limits =
     and_then (complete_head_len input (max_head_bytes limits)) (\<lambda>r.
       case r of
         None \<Rightarrow> Ok None
       | Some head_len \<Rightarrow>
           if \<not> utf8_valid (take head_len input) then Err InvalidUtf8
           else (case split_crlf (take head_len input) of
             [] \<Rightarrow> Err InvalidRequestLine
           | start_line # lines \<Rightarrow>
               if length start_line > max_start_line_bytes limits then Err StartLineTooLong
               else and_then (parse_request_line start_line) (\<lambda>(method, target, version).
                 and_then (parse_header_lines limits lines []) (\<lambda>headers.
                   Ok (Some \<lparr>rh_method = method, rh_target = target, rh_version = version,
                             rh_headers = headers, rh_head_len = head_len\<rparr>)))))"

definition raw_request_target :: "raw_request_head \<Rightarrow> request_target h1result" where
  "raw_request_target h = http1_request_target (rh_method h) (rh_target h)"

definition effective_authority :: "raw_request_head \<Rightarrow> string h1result" where
  "effective_authority h =
     and_then (raw_request_target h) (\<lambda>target.
       and_then (http1_optional_host (rh_headers h)) (\<lambda>host.
         let from_target = (\<lambda>authority.
           and_then (validate_http1_authority authority) (\<lambda>_.
             if (case host of None \<Rightarrow> False | Some hs \<Rightarrow> \<not> eq_ignore_ascii_case authority hs)
             then Err ConflictingAuthority else Ok authority))
         in case target of
              AbsoluteUri _ _ (Some authority) _ _ \<Rightarrow> from_target authority
            | AuthorityForm authority _ \<Rightarrow> from_target authority
            | Origin _ _ _ \<Rightarrow> ok_or host MissingHost
            | Asterisk \<Rightarrow> ok_or host MissingHost
            | AbsoluteUri _ _ None _ _ \<Rightarrow> Err InvalidAuthority))"

definition validate_message :: "raw_request_head \<Rightarrow> request_validation h1result" where
  "validate_message h =
     and_then (if rh_version h = Http11
               then and_then (http1_required_host (rh_headers h)) (\<lambda>_. Ok ()) else Ok ()) (\<lambda>_.
     and_then (raw_request_target h) (\<lambda>target.
     and_then (case effective_authority h of
                 Ok authority \<Rightarrow> Ok (Some authority)
               | Err e \<Rightarrow> if e = MissingHost \<and> rh_version h = Http10 then Ok None else Err e)
       (\<lambda>authority.
     and_then (http1_request_body_framing (rh_version h) (rh_headers h)) (\<lambda>framing.
     and_then (http1_connection_directive (rh_version h) (rh_headers h)) (\<lambda>directive.
       Ok \<lparr>rv_request_target = target, rv_body_framing = framing,
           rv_connection_directive = directive, rv_effective_authority = authority\<rparr>)))))"

definition parse_http1_request_head ::
    "bytes \<Rightarrow> http1_head_limits \<Rightarrow> validated_request_head option h1result" where
  "parse_http1_request_head input limits =
     and_then (parse_http1_request_head_raw input limits) (\<lambda>r.
       case r of
         None \<Rightarrow> Ok None
       | Some head \<Rightarrow>
           and_then (validate_message head) (\<lambda>validation.
             Ok (Some \<lparr>vh_head = head, vh_validation = validation\<rparr>)))"

record http1_head_buffer =
  hb_bytes :: bytes
  hb_limits :: http1_head_limits

definition head_buffer_new :: "http1_head_limits \<Rightarrow> http1_head_buffer" where
  "head_buffer_new limits = \<lparr>hb_bytes = [], hb_limits = limits\<rparr>"

definition head_buffer_len :: "http1_head_buffer \<Rightarrow> nat" where
  "head_buffer_len b = length (hb_bytes b)"

definition head_buffer_append ::
    "http1_head_buffer \<Rightarrow> bytes \<Rightarrow> validated_request_head option h1result \<times> http1_head_buffer" where
  "head_buffer_append b chunk =
     (if length (hb_bytes b) > max_head_bytes (hb_limits b) then (Err HeadTooLarge, b)
      else
        let remaining = saturating_sub (max_head_bytes (hb_limits b)) (length (hb_bytes b));
            b' = b\<lparr>hb_bytes := hb_bytes b @ take (min (length chunk) remaining) chunk\<rparr>
        in case parse_http1_request_head (hb_bytes b') (hb_limits b') of
             Ok (Some head) \<Rightarrow> (Ok (Some head), b')
           | Ok None \<Rightarrow>
               if length chunk > remaining \<or> length (hb_bytes b') > max_head_bytes (hb_limits b')
               then (Err HeadTooLarge, b') else (Ok None, b')
           | Err e \<Rightarrow> (Err e, b'))"

definition head_buffer_clear :: "http1_head_buffer \<Rightarrow> http1_head_buffer" where
  "head_buffer_clear b = b\<lparr>hb_bytes := []\<rparr>"

end
