(* ===== verification/Http1_Head_Props.thy ===== *)
theory Http1_Head_Props
  imports Http1_Head
begin

text \<open>
  Properties of request heads: the end of the head is the first empty line, a head that is decided
  stays decided when more bytes arrive, the incremental buffer agrees with the parser on the whole
  input, a parsed head accounts for every byte of the head, and the body framing and the authority
  are unambiguous.
\<close>

section \<open>The end of the head\<close>

definition head_ends_at :: "bytes \<Rightarrow> nat \<Rightarrow> bool" where
  "head_ends_at input i \<longleftrightarrow> take 4 (drop i input) = [CR, LF, CR, LF]"

lemma head_ends_at_less: "head_ends_at input i \<Longrightarrow> i + 4 \<le> length input"
  by (drule arg_cong [of _ _ length, OF head_ends_at_def [THEN iffD1]]) simp

lemma head_ends_at_append:
  "i + 4 \<le> length xs \<Longrightarrow> head_ends_at (xs @ ys) i \<longleftrightarrow> head_ends_at xs i"
  by (simp add: head_ends_at_def)

definition first_head_end :: "bytes \<Rightarrow> nat \<Rightarrow> bool" where
  "first_head_end input i \<longleftrightarrow> head_ends_at input i \<and> (\<forall>j < i. \<not> head_ends_at input j)"

lemma first_head_end_append:
  assumes "i + 4 \<le> length xs"
  shows "first_head_end (xs @ ys) i \<longleftrightarrow> first_head_end xs i"
  using assms by (auto simp: first_head_end_def head_ends_at_append)

lemma first_head_end_unique: "first_head_end input i \<Longrightarrow> first_head_end input j \<Longrightarrow> i = j"
  unfolding first_head_end_def by (meson nat_neq_iff)

lemma first_head_end_exists:
  assumes "head_ends_at input i"
  obtains j where "first_head_end input j" and "j \<le> i"
proof
  show "first_head_end input (LEAST j. head_ends_at input j)"
    unfolding first_head_end_def using assms by (auto intro: LeastI dest: not_less_Least)
  show "(LEAST j. head_ends_at input j) \<le> i"
    using assms by (rule Least_le)
qed

lemma find_upt_Some:
  "find P [0..<k] = Some i \<longleftrightarrow> i < k \<and> P i \<and> (\<forall>j < i. \<not> P j)"
  by (auto simp: find_Some_iff)

lemma find_upt_None: "find P [0..<k] = None \<longleftrightarrow> (\<forall>i < k. \<not> P i)"
  by (auto simp: find_None_iff)

lemma complete_head_len_Some:
  assumes "m \<le> u64_max" and "first_head_end input i" and "i + 4 \<le> m"
  shows "complete_head_len input m = Ok (Some (i + 4))"
proof -
  have "i + 4 \<le> length input"
    using assms(2) by (simp add: first_head_end_def head_ends_at_less)
  then have "i < min (length input) (saturating_add m 4) - 3"
    using assms(1,3) by (simp add: saturating_add_def)
  then have "find (\<lambda>i. take 4 (drop i input) = [CR, LF, CR, LF])
      [0..<min (length input) (saturating_add m 4) - 3] = Some i"
    using assms(2) unfolding find_upt_Some first_head_end_def head_ends_at_def by blast
  then show ?thesis
    using assms(3) by (simp add: complete_head_len_def)
qed

lemma complete_head_len_SomeD:
  assumes "complete_head_len input m = Ok (Some n)"
  shows "\<exists>i. n = i + 4 \<and> i + 4 \<le> m \<and> first_head_end input i"
  using assms
  by (auto simp: complete_head_len_def Let_def find_upt_Some first_head_end_def head_ends_at_def
      split: option.splits if_splits)

lemma complete_head_len_none:
  assumes "m \<le> u64_max" and "\<nexists>i. i + 4 \<le> m \<and> head_ends_at input i"
  shows "complete_head_len input m = (if length input > m then Err HeadTooLarge else Ok None)"
proof (cases "find (\<lambda>i. take 4 (drop i input) = [CR, LF, CR, LF])
      [0..<min (length input) (saturating_add m 4) - 3]")
  case None
  then show ?thesis by (simp add: complete_head_len_def)
next
  case (Some i)
  then have "head_ends_at input i" by (simp add: find_upt_Some head_ends_at_def)
  with assms(2) have "m < i + 4" and "i + 4 \<le> length input"
    by (auto simp: head_ends_at_less not_le [symmetric])
  with Some show ?thesis by (simp add: complete_head_len_def)
qed

lemma complete_head_len_cases:
  assumes "m \<le> u64_max"
  obtains (complete) i where "first_head_end input i" "i + 4 \<le> m"
      "complete_head_len input m = Ok (Some (i + 4))"
    | (partial) "\<nexists>i. i + 4 \<le> m \<and> head_ends_at input i"
      "complete_head_len input m = (if length input > m then Err HeadTooLarge else Ok None)"
proof (cases "\<exists>i. i + 4 \<le> m \<and> head_ends_at input i")
  case True
  then obtain i where "i + 4 \<le> m" "head_ends_at input i" by blast
  then obtain j where "first_head_end input j" "j + 4 \<le> m"
    by (metis add_le_mono1 first_head_end_exists le_trans)
  then show ?thesis by (intro complete complete_head_len_Some assms)
next
  case False
  then show ?thesis by (intro partial complete_head_len_none assms)
qed

lemma complete_head_len_append:
  assumes "m \<le> u64_max" and "complete_head_len xs m \<noteq> Ok None"
  shows "complete_head_len (xs @ ys) m = complete_head_len xs m"
  using assms(1)
proof (cases rule: complete_head_len_cases [where input = xs])
  case (complete i)
  then have "first_head_end (xs @ ys) i"
    by (subst first_head_end_append) (auto simp: first_head_end_def head_ends_at_less)
  with complete assms(1) show ?thesis by (simp add: complete_head_len_Some)
next
  case partial
  with assms(2) have long: "m < length xs" by (auto split: if_splits)
  with partial(1) have "\<nexists>i. i + 4 \<le> m \<and> head_ends_at (xs @ ys) i"
    by (auto simp: head_ends_at_append)
  with partial(2) long assms(1) show ?thesis by (simp add: complete_head_len_none)
qed

lemma complete_head_len_truncated:
  assumes "m \<le> u64_max" and "complete_head_len (take m t) m = Ok None" and "length t > m"
  shows "complete_head_len t m = Err HeadTooLarge"
proof -
  have "head_ends_at t i \<longleftrightarrow> head_ends_at (take m t) i" if "i + 4 \<le> m" for i
    using head_ends_at_append [of i "take m t" "drop m t"] that assms(3) by simp
  moreover have "\<nexists>i. i + 4 \<le> m \<and> head_ends_at (take m t) i"
    using assms(1,2) by (cases rule: complete_head_len_cases [where input = "take m t"]) auto
  ultimately show ?thesis
    using assms(1,3) by (subst complete_head_len_none) auto
qed


section \<open>Decided heads and the incremental buffer\<close>

lemma parse_raw_append:
  assumes "max_head_bytes limits \<le> u64_max"
    and "complete_head_len xs (max_head_bytes limits) \<noteq> Ok None"
  shows "parse_http1_request_head_raw (xs @ ys) limits = parse_http1_request_head_raw xs limits"
proof -
  have "n \<le> length xs" if "complete_head_len xs (max_head_bytes limits) = Ok (Some n)" for n
    using complete_head_len_SomeD [OF that] by (auto simp: first_head_end_def head_ends_at_less)
  then show ?thesis
    unfolding parse_http1_request_head_raw_def complete_head_len_append [OF assms]
    by (intro and_then_cong refl) (auto split: option.split)
qed

lemma parse_raw_None_iff:
  "parse_http1_request_head_raw xs limits = Ok None \<longleftrightarrow>
     complete_head_len xs (max_head_bytes limits) = Ok None"
proof -
  have "\<exists>l ls. split_crlf t = l # ls" for t
    using split_crlf_neq_Nil [of t] by (cases "split_crlf t") auto
  then show ?thesis
    by (auto simp: parse_http1_request_head_raw_def result_simps
        split: option.splits list.splits if_splits)
qed

lemma parse_head_None_iff:
  "parse_http1_request_head xs limits = Ok None \<longleftrightarrow>
     complete_head_len xs (max_head_bytes limits) = Ok None"
  unfolding parse_http1_request_head_def
  by (auto simp: result_simps parse_raw_None_iff split: option.splits)

lemma parse_head_append:
  assumes "max_head_bytes limits \<le> u64_max"
    and "parse_http1_request_head xs limits \<noteq> Ok None"
  shows "parse_http1_request_head (xs @ ys) limits = parse_http1_request_head xs limits"
  using assms unfolding parse_head_None_iff
  by (simp add: parse_http1_request_head_def parse_raw_append)

lemma parse_head_truncated:
  assumes "max_head_bytes limits \<le> u64_max"
    and "parse_http1_request_head (take (max_head_bytes limits) t) limits = Ok None"
    and "length t > max_head_bytes limits"
  shows "parse_http1_request_head t limits = Err HeadTooLarge"
proof -
  have "complete_head_len t (max_head_bytes limits) = Err HeadTooLarge"
    using assms(2) unfolding parse_head_None_iff
    by (rule complete_head_len_truncated [OF assms(1) _ assms(3)])
  then show ?thesis
    by (simp add: parse_http1_request_head_def parse_http1_request_head_raw_def)
qed

fun head_buffer_feed ::
    "http1_head_buffer \<Rightarrow> bytes list \<Rightarrow> validated_request_head option h1result \<times> http1_head_buffer" where
  "head_buffer_feed b [] = (Ok None, b)"
| "head_buffer_feed b (c # cs) =
     (case head_buffer_append b c of
        (Ok None, b') \<Rightarrow> head_buffer_feed b' cs
      | r \<Rightarrow> r)"

lemma head_buffer_append_unfold:
  assumes "hb_bytes b = s" and "hb_limits b = limits" and "length s \<le> max_head_bytes limits"
  shows "head_buffer_append b c =
    (if parse_http1_request_head (take (max_head_bytes limits) (s @ c)) limits = Ok None \<and>
        max_head_bytes limits < length (s @ c)
     then Err HeadTooLarge
     else parse_http1_request_head (take (max_head_bytes limits) (s @ c)) limits,
     b\<lparr>hb_bytes := take (max_head_bytes limits) (s @ c)\<rparr>)"
proof -
  let ?m = "max_head_bytes limits"
  let ?r = "parse_http1_request_head (take ?m (s @ c)) limits"
  have bytes: "s @ take (min (length c) (?m - length s)) c = take ?m (s @ c)"
    using assms(3) by (simp add: min_def)
  have long: "?m - length s < length c \<longleftrightarrow> ?m < length (s @ c)"
    using assms(3) by auto
  have "head_buffer_append b c =
      (case ?r of
         Ok (Some head) \<Rightarrow> (Ok (Some head), b\<lparr>hb_bytes := take ?m (s @ c)\<rparr>)
       | Ok None \<Rightarrow>
           if ?m < length (s @ c) then (Err HeadTooLarge, b\<lparr>hb_bytes := take ?m (s @ c)\<rparr>)
           else (Ok None, b\<lparr>hb_bytes := take ?m (s @ c)\<rparr>)
       | Err e \<Rightarrow> (Err e, b\<lparr>hb_bytes := take ?m (s @ c)\<rparr>))"
    unfolding head_buffer_append_def Let_def assms(1,2) saturating_sub_eq bytes long
    using assms(2,3) by (simp del: take_append length_append)
  then show ?thesis
    by (cases ?r) (auto split: option.split)
qed

lemma head_buffer_append_eq:
  assumes "hb_bytes b = s" and "hb_limits b = limits" and "length s \<le> max_head_bytes limits"
    and "max_head_bytes limits \<le> u64_max"
  shows "head_buffer_append b c =
    (parse_http1_request_head (s @ c) limits, b\<lparr>hb_bytes := take (max_head_bytes limits) (s @ c)\<rparr>)"
proof -
  let ?m = "max_head_bytes limits"
  let ?r = "parse_http1_request_head (take ?m (s @ c)) limits"
  consider (short) "length (s @ c) \<le> ?m" | (cut) "?m < length (s @ c)" "?r = Ok None"
    | (decided) "?r \<noteq> Ok None"
    by linarith
  then show ?thesis
  proof cases
    case short
    then show ?thesis by (simp add: head_buffer_append_unfold [OF assms(1-3)])
  next
    case cut
    then have "parse_http1_request_head (s @ c) limits = Err HeadTooLarge"
      using assms(4) by (intro parse_head_truncated)
    with cut show ?thesis
      by (simp add: head_buffer_append_unfold [OF assms(1-3)] del: take_append length_append)
  next
    case decided
    then have "parse_http1_request_head (s @ c) limits = ?r"
      using parse_head_append [OF assms(4) decided, of "drop ?m (s @ c)"]
      by (simp only: append_take_drop_id)
    with decided show ?thesis
      by (simp add: head_buffer_append_unfold [OF assms(1-3)] del: take_append length_append)
  qed
qed

lemma head_buffer_feed_eq:
  assumes "max_head_bytes limits \<le> u64_max" and "parse_http1_request_head s limits = Ok None"
    and "hb_bytes b = s" and "hb_limits b = limits" and "length s \<le> max_head_bytes limits"
  shows "fst (head_buffer_feed b cs) = parse_http1_request_head (s @ concat cs) limits \<and>
    length (hb_bytes (snd (head_buffer_feed b cs))) \<le> max_head_bytes limits"
  using assms(2-)
proof (induction cs arbitrary: s b)
  case Nil
  then show ?case by simp
next
  case (Cons c cs)
  let ?m = "max_head_bytes limits"
  let ?b = "b\<lparr>hb_bytes := take ?m (s @ c)\<rparr>"
  note app = head_buffer_append_eq [OF Cons.prems(2,3,4) assms(1), of c]
  show ?case
  proof (cases "parse_http1_request_head (s @ c) limits = Ok None")
    case True
    have "length (s @ c) \<le> ?m"
    proof (rule ccontr)
      assume "\<not> ?thesis"
      with True show False
        using complete_head_len_none [OF assms(1), of "s @ c"]
        by (cases rule: complete_head_len_cases [OF assms(1), of "s @ c"])
          (auto simp: parse_head_None_iff)
    qed
    with True Cons.prems(3) have "fst (head_buffer_feed ?b cs) = parse_http1_request_head ((s @ c) @ concat cs) limits \<and>
        length (hb_bytes (snd (head_buffer_feed ?b cs))) \<le> ?m"
      by (intro Cons.IH) simp_all
    with True app show ?thesis by simp
  next
    case False
    then have "parse_http1_request_head (s @ concat (c # cs)) limits = parse_http1_request_head (s @ c) limits"
      using parse_head_append [OF assms(1) False, of "concat cs"] by simp
    moreover have "head_buffer_feed b (c # cs) = head_buffer_append b c"
      using False unfolding head_buffer_feed.simps app by (auto split: result.split option.split)
    ultimately show ?thesis using app by simp
  qed
qed


text \<open>
  C6. However a request head is cut into pieces, appending the pieces to the head buffer one by one
  gives the result of parsing all the bytes at once: the same head, the same error, or the same
  request for more input. The buffer never holds more than \<open>max_head_bytes\<close>.
\<close>

theorem head_buffer_incremental:
  assumes "max_head_bytes limits \<le> u64_max"
  shows "fst (head_buffer_feed (head_buffer_new limits) pieces) =
      parse_http1_request_head (concat pieces) limits \<and>
    head_buffer_len (snd (head_buffer_feed (head_buffer_new limits) pieces)) \<le> max_head_bytes limits"
proof -
  have "parse_http1_request_head [] limits = Ok None"
    unfolding parse_head_None_iff by (simp add: complete_head_len_def)
  from head_buffer_feed_eq [OF assms this, of "head_buffer_new limits" pieces] show ?thesis
    by (simp add: head_buffer_new_def head_buffer_len_def)
qed

theorem head_buffer_incremental_witness:
  "fst (head_buffer_feed (head_buffer_new default_head_limits)
      [''GET / HT'', ''TP/1.0'' @ [CR], [LF, CR, LF]]) =
    parse_http1_request_head (''GET / HTTP/1.0'' @ [CR, LF, CR, LF]) default_head_limits \<and>
   is_ok (parse_http1_request_head (''GET / HTTP/1.0'' @ [CR, LF, CR, LF]) default_head_limits) \<and>
   parse_http1_request_head (''GET / HTTP/1.0'' @ [CR, LF, CR, LF]) default_head_limits \<noteq> Ok None"
proof -
  have "max_head_bytes default_head_limits \<le> u64_max" by code_simp
  moreover have "is_ok (parse_http1_request_head (''GET / HTTP/1.0'' @ [CR, LF, CR, LF]) default_head_limits)"
    by code_simp
  moreover have "parse_http1_request_head (''GET / HTTP/1.0'' @ [CR, LF, CR, LF]) default_head_limits \<noteq> Ok None"
    unfolding parse_head_None_iff by code_simp
  ultimately show ?thesis
    using head_buffer_incremental
      [of default_head_limits "[''GET / HT'', ''TP/1.0'' @ [CR], [LF, CR, LF]]"]
    by simp
qed


section \<open>Lines of a head\<close>

lemma cons_hd_append: "ys \<noteq> [] \<Longrightarrow> cons_hd x (ys @ zs) = cons_hd x ys @ zs"
  by (cases ys) auto

lemma split_crlf_append: "split_crlf (u @ CR # LF # v) = split_crlf u @ split_crlf v"
  by (induction u rule: split_crlf.induct) (auto simp: cons_hd_append CR_def LF_def)

lemma join_with_append:
  "xs \<noteq> [] \<Longrightarrow> ys \<noteq> [] \<Longrightarrow> join_with sep (xs @ ys) = join_with sep xs @ sep @ join_with sep ys"
proof (induction xs)
  case (Cons x xs)
  then show ?case by (cases "xs = []") (auto simp: join_with_Cons)
qed simp

lemma empty_line_ends_head:
  assumes "[] \<in> set (tl (split_crlf u))"
  shows "\<exists>j < length u. head_ends_at (u @ [CR, LF, CR, LF]) j"
proof -
  from assms obtain pre post where "tl (split_crlf u) = pre @ [] # post"
    by (meson split_list)
  then have "split_crlf u = (hd (split_crlf u) # pre) @ [] # post"
    by (metis append_Cons list.collapse split_crlf_neq_Nil)
  then have "u = join_with [CR, LF] ((hd (split_crlf u) # pre) @ [] # post)"
    by (metis join_split_crlf)
  also have "\<dots> = join_with [CR, LF] (hd (split_crlf u) # pre) @ [CR, LF] @ join_with [CR, LF] ([] # post)"
    by (rule join_with_append) simp_all
  finally obtain a where u: "u = a @ [CR, LF] @ join_with [CR, LF] ([] # post)" by blast
  have "head_ends_at (u @ [CR, LF, CR, LF]) (length a)"
    by (cases post) (simp_all add: u head_ends_at_def)
  moreover have "length a < length u" by (simp add: u)
  ultimately show ?thesis by blast
qed

lemma first_head_end_split:
  assumes "first_head_end input i"
  defines "u \<equiv> take i input"
  shows "take (i + 4) input = u @ [CR, LF, CR, LF]"
    and "split_crlf (take (i + 4) input) = split_crlf u @ [[], []]"
    and "[] \<notin> set (tl (split_crlf u))"
proof -
  show t: "take (i + 4) input = u @ [CR, LF, CR, LF]"
    using assms(1) unfolding u_def first_head_end_def head_ends_at_def take_add by simp
  then show "split_crlf (take (i + 4) input) = split_crlf u @ [[], []]"
    using split_crlf_append [of u "[CR, LF]"] split_crlf_append [of "[]" "[]"] by simp
  have len: "i + 4 \<le> length input"
    using assms(1) by (simp add: first_head_end_def head_ends_at_less)
  have "\<not> head_ends_at (u @ [CR, LF, CR, LF]) j" if "j < length u" for j
  proof -
    have "j < i" using that by (simp add: u_def)
    then have "\<not> head_ends_at (take (i + 4) input @ drop (i + 4) input) j"
      using assms(1) by (simp add: first_head_end_def)
    then show ?thesis
      using \<open>j < i\<close> len unfolding t [symmetric] by (subst (asm) head_ends_at_append) auto
  qed
  then show "[] \<notin> set (tl (split_crlf u))"
    using empty_line_ends_head by blast
qed


section \<open>A head accounts for every byte\<close>

text \<open>
  The bytes of a head, written from its start line and its raw fields: the name and the value as it
  stands between the colon and the end of the line.
\<close>

definition print_fields :: "(string \<times> string) list \<Rightarrow> bytes" where
  "print_fields fs = concat (map (\<lambda>(n, v). n @ '':'' @ v @ [CR, LF]) fs) @ [CR, LF]"

definition print_head :: "string \<Rightarrow> (string \<times> string) list \<Rightarrow> bytes" where
  "print_head start_line fs = start_line @ [CR, LF] @ print_fields fs"

definition version_string :: "http1_version \<Rightarrow> string" where
  "version_string v = (case v of Http10 \<Rightarrow> ''HTTP/1.0'' | Http11 \<Rightarrow> ''HTTP/1.1'')"

definition field_line :: "string \<times> string \<Rightarrow> string" where
  "field_line f = fst f @ '':'' @ snd f"

definition raw_field_ok :: "string \<times> string \<Rightarrow> bool" where
  "raw_field_ok f \<longleftrightarrow> http_token_valid (fst f) \<and> list_all (\<lambda>c. \<not> field_value_forbidden c) (snd f)"

definition field_header :: "string \<times> string \<Rightarrow> http1_header" where
  "field_header f = \<lparr>hdr_name = fst f, hdr_value = trim (snd f)\<rparr>"

lemma http1_header_new_iff:
  "http1_header_new n v = Ok h \<longleftrightarrow> raw_field_ok (n, v) \<and> h = field_header (n, v)"
  by (auto simp: http1_header_new_def raw_field_ok_def field_header_def list_ex_iff list_all_iff)

lemma token_no_colon: "http_token_valid n \<Longrightarrow> CHR '':'' \<notin> set n"
  using http_token_no_sep(1) by blast

lemma parse_header_line_iff:
  "parse_header_line l = Ok h \<longleftrightarrow> (\<exists>f. l = field_line f \<and> raw_field_ok f \<and> h = field_header f)"
proof
  assume "parse_header_line l = Ok h"
  then obtain n v where "split_once (CHR '':'') l = Some (n, v)" "http1_header_new n v = Ok h"
    by (auto simp: parse_header_line_def split: option.splits)
  then have "l = field_line (n, v) \<and> raw_field_ok (n, v) \<and> h = field_header (n, v)"
    by (simp add: split_once_eq_Some http1_header_new_iff field_line_def)
  then show "\<exists>f. l = field_line f \<and> raw_field_ok f \<and> h = field_header f" by blast
next
  assume "\<exists>f. l = field_line f \<and> raw_field_ok f \<and> h = field_header f"
  then obtain n v where f: "l = field_line (n, v)" "raw_field_ok (n, v)" "h = field_header (n, v)"
    by auto
  then have "split_once (CHR '':'') l = Some (n, v)"
    by (auto simp: split_once_eq_Some field_line_def raw_field_ok_def token_no_colon)
  with f show "parse_header_line l = Ok h"
    by (simp add: parse_header_line_def http1_header_new_iff)
qed

lemma field_line_start:
  assumes "raw_field_ok f"
  shows "field_line f \<noteq> []" and "33 \<le> byte (hd (field_line f))"
proof -
  from assms obtain c n where "fst f = c # n" "http_token_byte c"
    by (cases "fst f") (auto simp: raw_field_ok_def http_token_valid_def)
  then show "field_line f \<noteq> []" "33 \<le> byte (hd (field_line f))"
    by (auto simp: field_line_def dest: http_token_byte_range)
qed

definition lines_within :: "http1_head_limits \<Rightarrow> (string \<times> string) list \<Rightarrow> bool" where
  "lines_within limits fs \<longleftrightarrow>
     length fs \<le> max_header_count limits \<and>
     list_all (\<lambda>f. length (field_line f) \<le> max_header_line_bytes limits) fs"

lemma parse_header_lines_Ok:
  assumes "parse_header_lines limits (ls @ [] # rest) acc = Ok hs" and "[] \<notin> set ls"
    and "length acc \<le> max_header_count limits"
  shows "\<exists>fs. ls = map field_line fs \<and> hs = acc @ map field_header fs \<and> list_all raw_field_ok fs \<and>
    length acc + length fs \<le> max_header_count limits \<and>
    list_all (\<lambda>f. length (field_line f) \<le> max_header_line_bytes limits) fs"
  using assms
proof (induction ls arbitrary: acc)
  case Nil
  then show ?case by simp
next
  case (Cons l ls)
  from Cons.prems obtain h where h: "parse_header_line l = Ok h"
    "length l \<le> max_header_line_bytes limits" "length acc < max_header_count limits"
    "parse_header_lines limits (ls @ [] # rest) (acc @ [h]) = Ok hs"
    by (auto simp: result_simps split: if_splits)
  then obtain f where f: "l = field_line f" "raw_field_ok f" "h = field_header f"
    by (auto simp: parse_header_line_iff)
  from Cons.IH [OF h(4)] Cons.prems h(3) obtain fs where "ls = map field_line fs"
    "hs = acc @ h # map field_header fs" "list_all raw_field_ok fs"
    "Suc (length acc + length fs) \<le> max_header_count limits"
    "list_all (\<lambda>f. length (field_line f) \<le> max_header_line_bytes limits) fs"
    by auto
  with f h(2) show ?case by (intro exI [of _ "f # fs"]) simp
qed

lemma parse_header_lines_print:
  assumes "list_all raw_field_ok fs" and "length acc + length fs \<le> max_header_count limits"
    and "list_all (\<lambda>f. length (field_line f) \<le> max_header_line_bytes limits) fs"
  shows "parse_header_lines limits (map field_line fs @ [] # rest) acc = Ok (acc @ map field_header fs)"
  using assms
proof (induction fs arbitrary: acc)
  case Nil
  then show ?case by simp
next
  case (Cons f fs)
  from Cons.prems(1) have "parse_header_line (field_line f) = Ok (field_header f)"
    unfolding parse_header_line_iff by (intro exI [of _ f]) simp
  moreover have "field_line f \<noteq> []" "\<not> starts_with [SP] (field_line f)" "\<not> starts_with [TAB] (field_line f)"
    using field_line_start [of f] Cons.prems(1)
    by (auto simp: starts_with_iff prefix_def)
  ultimately show ?case using Cons by simp
qed

lemma print_head_join:
  "print_head l fs = join_with [CR, LF] (l # map field_line fs) @ [CR, LF, CR, LF]"
proof (induction fs arbitrary: l)
  case Nil
  then show ?case by (simp add: print_head_def print_fields_def)
next
  case (Cons f fs)
  have "print_head l (f # fs) = l @ [CR, LF] @ print_head (field_line f) fs"
    by (simp add: print_head_def print_fields_def field_line_def split_beta)
  with Cons show ?case by simp
qed

definition request_line_ok :: "string \<Rightarrow> string \<Rightarrow> bool" where
  "request_line_ok m t \<longleftrightarrow> http_token_valid m \<and> t \<noteq> [] \<and> is_ok (http1_request_target m t)"

definition request_line :: "string \<Rightarrow> string \<Rightarrow> http1_version \<Rightarrow> string" where
  "request_line m t v = m @ [SP] @ t @ [SP] @ version_string v"

lemma version_cases:
  "(if s = ''HTTP/1.0'' then Ok Http10 else if s = ''HTTP/1.1'' then Ok Http11
    else Err UnsupportedVersion) = Ok v \<longleftrightarrow> s = version_string v"
  by (cases v) (auto simp: version_string_def)

lemma request_target_bytes:
  assumes "is_ok (http1_request_target m t)" and "c \<in> set t"
  shows "33 \<le> byte c \<and> byte c < 127"
proof -
  from assms(1) have "\<not> target_has_forbidden_byte t"
    by (auto simp: http1_request_target_def split: if_splits)
  with assms(2) have "byte c < 128" "\<not> byte c \<le> 32" "byte c \<noteq> 127"
    by (auto simp: target_has_forbidden_byte_def is_ascii_def list_all_iff list_ex_iff byte_in_def)
  then show ?thesis by linarith
qed

lemma parse_request_line_iff:
  "parse_request_line l = Ok (m, t, v) \<longleftrightarrow> l = request_line m t v \<and> request_line_ok m t"
proof
  assume "parse_request_line l = Ok (m, t, v)"
  then have split: "split_on SP l = [m, t, version_string v]"
    and ok: "http_token_valid m" "t \<noteq> []" "is_ok (http1_request_target m t)"
    by (auto simp: parse_request_line_def result_simps version_cases simp del: if_cancel
        split: list.splits if_splits)
  show "l = request_line m t v \<and> request_line_ok m t"
    using join_split_on [of SP l] ok unfolding split request_line_def request_line_ok_def by simp
next
  assume r: "l = request_line m t v \<and> request_line_ok m t"
  then have "SP \<notin> set m" "SP \<notin> set t"
    using http_token_no_sep(3) [of m SP] request_target_bytes [of m t SP]
    by (auto simp: request_line_ok_def) (simp add: SP_def)
  moreover have "SP \<notin> set (version_string v)"
    by (cases v) (simp_all add: version_string_def SP_def)
  ultimately have "split_on SP l = [m, t, version_string v]"
    using r by (simp add: request_line_def split_on_append split_on_single)
  with r show "parse_request_line l = Ok (m, t, v)"
    by (cases v) (auto simp: parse_request_line_def request_line_ok_def version_string_def
        http_token_valid_def result_simps is_ok_iff)
qed

lemma parse_raw_Ok:
  assumes "parse_http1_request_head_raw input limits = Ok (Some h)"
  shows "\<exists>fs. take (rh_head_len h) input =
      print_head (request_line (rh_method h) (rh_target h) (rh_version h)) fs \<and>
    first_head_end input (rh_head_len h - 4) \<and> rh_head_len h \<le> max_head_bytes limits \<and>
    request_line_ok (rh_method h) (rh_target h) \<and>
    list_all raw_field_ok fs \<and> lines_within limits fs \<and> rh_headers h = map field_header fs"
proof -
  from assms obtain n where n: "complete_head_len input (max_head_bytes limits) = Ok (Some n)"
    by (auto simp: parse_http1_request_head_raw_def result_simps split: option.splits)
  then obtain i where i: "n = i + 4" "i + 4 \<le> max_head_bytes limits" "first_head_end input i"
    using complete_head_len_SomeD by blast
  note sp = first_head_end_split [OF i(3)]
  define u where "u = take i input"
  obtain l ls where ls: "split_crlf u = l # ls"
    using split_crlf_neq_Nil by (cases "split_crlf u") auto
  from assms n obtain m t v hs where r: "parse_request_line l = Ok (m, t, v)"
    "parse_header_lines limits (ls @ [[], []]) [] = Ok hs"
    "h = \<lparr>rh_method = m, rh_target = t, rh_version = v, rh_headers = hs, rh_head_len = n\<rparr>"
    unfolding parse_http1_request_head_raw_def i(1)
    by (auto simp: sp(2) u_def [symmetric] ls result_simps split: if_splits)
  have "[] \<notin> set ls" using sp(3) by (simp add: u_def [symmetric] ls)
  from parse_header_lines_Ok [OF r(2) this] obtain fs where fs: "ls = map field_line fs"
    "hs = map field_header fs" "list_all raw_field_ok fs" "lines_within limits fs"
    by (auto simp: lines_within_def)
  have "take n input = u @ [CR, LF, CR, LF]"
    using sp(1) i(1) by (simp add: u_def)
  also have "u = join_with [CR, LF] (l # map field_line fs)"
    using join_split_crlf [of u] by (simp add: ls fs(1))
  finally have "take n input = print_head l fs" by (simp add: print_head_join)
  with r i fs show ?thesis
    by (intro exI [of _ fs]) (simp add: parse_request_line_iff)
qed




section \<open>Body framing\<close>

definition named :: "string \<Rightarrow> http1_header list \<Rightarrow> http1_header list" where
  "named n hs = filter (\<lambda>h. eq_ignore_ascii_case (hdr_name h) n) hs"

text \<open>What the fields of a message say about its body, one field at a time.\<close>

definition length_field :: "http1_header \<Rightarrow> nat \<Rightarrow> bool" where
  "length_field h n \<longleftrightarrow>
     trim (hdr_value h) \<noteq> [] \<and> list_all is_ascii_digit (trim (hdr_value h)) \<and>
     digits_value (trim (hdr_value h)) = n \<and> n < 2 ^ 64"

definition chunked_field :: "http1_header \<Rightarrow> bool" where
  "chunked_field h \<longleftrightarrow>
     CHR '','' \<notin> set (hdr_value h) \<and> eq_ignore_ascii_case (trim (hdr_value h)) ''chunked''"

fun framing_spec :: "http1_version \<Rightarrow> http1_header list \<Rightarrow> http1_body_framing \<Rightarrow> bool" where
  "framing_spec v hs Chunked \<longleftrightarrow>
     v = Http11 \<and> named ''content-length'' hs = [] \<and>
     (\<exists>h. named ''transfer-encoding'' hs = [h] \<and> chunked_field h)"
| "framing_spec v hs (ContentLength n) \<longleftrightarrow>
     0 < n \<and> named ''transfer-encoding'' hs = [] \<and>
     (\<exists>h. named ''content-length'' hs = [h] \<and> length_field h n)"
| "framing_spec v hs NoBody \<longleftrightarrow>
     named ''transfer-encoding'' hs = [] \<and>
     (named ''content-length'' hs = [] \<or>
      (\<exists>h. named ''content-length'' hs = [h] \<and> length_field h 0))"

lemma digit_not_plus: "is_ascii_digit c \<Longrightarrow> c \<noteq> CHR ''+''"
  by (auto simp: is_ascii_digit_def byte_in_def byte_def)

lemma parse_content_length_iff: "parse_content_length (hdr_value h) = Ok n \<longleftrightarrow> length_field h n"
proof (cases "trim (hdr_value h)")
  case Nil
  then show ?thesis by (simp add: parse_content_length_def length_field_def)
next
  case (Cons c cs)
  then show ?thesis
    by (auto simp: parse_content_length_def length_field_def parse_u64_def parse_unsigned_def Let_def
        digit_not_plus split: if_splits)
qed

lemma http_token_byte_lower: "http_token_byte (to_ascii_lower c) \<longleftrightarrow> http_token_byte c"
  by (auto simp: http_token_byte_def to_ascii_lower_def is_ascii_upper_def byte_in_def)

lemma eq_ignore_case_token:
  "eq_ignore_ascii_case s t \<Longrightarrow> http_token_valid t \<Longrightarrow> http_token_valid s"
proof -
  have "http_token_valid u \<longleftrightarrow> http_token_valid (to_ascii_lowercase u)" for u
    by (simp add: http_token_valid_def to_ascii_lowercase_def list.pred_map comp_def
        http_token_byte_lower)
  then show "eq_ignore_ascii_case s t \<Longrightarrow> http_token_valid t \<Longrightarrow> http_token_valid s"
    by (metis eq_ignore_ascii_case_def)
qed

lemma transfer_codings_Ok:
  "transfer_codings ls k b = Ok (n, c) \<Longrightarrow> n = min (k + length ls) u64_max \<or> ls = []"
  by (induction ls k b rule: transfer_codings.induct)
    (auto simp: Let_def saturating_add_def split: if_splits)

lemma parse_transfer_encoding_iff:
  "parse_transfer_encoding (hdr_value h) = Ok f \<longleftrightarrow> f = Chunked \<and> chunked_field h"
proof (cases "CHR '','' \<in> set (hdr_value h)")
  case True
  then obtain a b ls where "split_on (CHR '','') (hdr_value h) = a # b # ls"
    by (metis (no_types, lifting) split_on_append split_list_first split_on_neq_Nil neq_Nil_conv)
  then have "transfer_codings (split_on (CHR '','') (hdr_value h)) 0 False \<noteq> Ok (1, True)"
    using transfer_codings_Ok [of "a # b # ls" 0 False 1 True]
    by (auto simp: u64_max_def)
  with True show ?thesis
    by (auto simp: parse_transfer_encoding_def chunked_field_def result_simps split: if_splits)
next
  case False
  have "http_token_valid ''chunked''" by code_simp
  then have "eq_ignore_ascii_case t ''chunked'' \<Longrightarrow> http_token_valid t \<and> t \<noteq> []" for t
    using eq_ignore_case_token [of t "''chunked''"] by (auto simp: http_token_valid_def)
  with False show ?thesis
    by (auto simp: parse_transfer_encoding_def chunked_field_def split_on_single Let_def
        saturating_add_def u64_max_def)
qed

lemma named_Cons: "named n (h # hs) = (if eq_ignore_ascii_case (hdr_name h) n then h # named n hs else named n hs)"
  by (simp add: named_def)

text \<open>A field that may occur once and yields a value, joined to what was seen before.\<close>

definition at_most_once :: "'a option \<Rightarrow> http1_header list \<Rightarrow> (http1_header \<Rightarrow> 'a \<Rightarrow> bool) \<Rightarrow> 'a option \<Rightarrow> bool" where
  "at_most_once seen hs yields r \<longleftrightarrow>
     (case seen of
        Some x \<Rightarrow> hs = [] \<and> r = Some x
      | None \<Rightarrow> hs = [] \<and> r = None \<or> (\<exists>h x. hs = [h] \<and> yields h x \<and> r = Some x))"

lemma at_most_once_Cons:
  "at_most_once seen (h # hs) yields r \<longleftrightarrow> seen = None \<and> (\<exists>x. yields h x \<and> at_most_once (Some x) hs yields r)"
  by (auto simp: at_most_once_def split: option.split)

lemma at_most_once_None:
  "at_most_once None hs yields None \<longleftrightarrow> hs = []"
  "at_most_once None hs yields (Some x) \<longleftrightarrow> (\<exists>h. hs = [h] \<and> yields h x)"
  by (auto simp: at_most_once_def)

lemma length_not_encoding:
  assumes "eq_ignore_ascii_case n ''content-length''"
  shows "\<not> eq_ignore_ascii_case n ''transfer-encoding''"
proof -
  have "to_ascii_lowercase ''content-length'' \<noteq> to_ascii_lowercase ''transfer-encoding''" by code_simp
  with assms show ?thesis unfolding eq_ignore_ascii_case_def by metis
qed

lemma framing_fields_iff:
  "framing_fields v hs cl te = Ok (te', cl') \<longleftrightarrow>
     at_most_once cl (named ''content-length'' hs) length_field cl' \<and>
     at_most_once te (named ''transfer-encoding'' hs) (\<lambda>h f. f = Chunked \<and> chunked_field h) te' \<and>
     (v = Http10 \<longrightarrow> named ''transfer-encoding'' hs = [])"
proof (induction v hs cl te rule: framing_fields.induct)
  case (1 v cl te)
  then show ?case by (auto simp: at_most_once_def named_def split: option.split)
next
  case (2 v h hs cl te)
  consider (len) "eq_ignore_ascii_case (hdr_name h) ''content-length''"
      "\<not> eq_ignore_ascii_case (hdr_name h) ''transfer-encoding''"
    | (enc) "\<not> eq_ignore_ascii_case (hdr_name h) ''content-length''"
      "eq_ignore_ascii_case (hdr_name h) ''transfer-encoding''"
    | (other) "\<not> eq_ignore_ascii_case (hdr_name h) ''content-length''"
      "\<not> eq_ignore_ascii_case (hdr_name h) ''transfer-encoding''"
    using length_not_encoding by blast
  then show ?case
  proof cases
    case len
    with 2(1) [OF len(1)] show ?thesis
      by (auto simp: named_Cons at_most_once_Cons result_simps parse_content_length_iff)
  next
    case enc
    with 2(2) [OF enc] show ?thesis
      by (auto simp: named_Cons at_most_once_Cons result_simps parse_transfer_encoding_iff)
  next
    case other
    with 2(3) [OF other] show ?thesis by (simp add: named_Cons)
  qed
qed

lemma request_body_framing_iff:
  "http1_request_body_framing v hs = Ok f \<longleftrightarrow> framing_spec v hs f"
proof -
  have "http1_request_body_framing v hs = Ok f \<longleftrightarrow>
      f = NoBody \<and> framing_fields v hs None None = Ok (None, None) \<or>
      f = NoBody \<and> framing_fields v hs None None = Ok (None, Some 0) \<or>
      (\<exists>n > 0. f = ContentLength n \<and> framing_fields v hs None None = Ok (None, Some n)) \<or>
      framing_fields v hs None None = Ok (Some f, None)"
  proof (cases "framing_fields v hs None None")
    case (Ok r)
    then show ?thesis
      by (cases r; cases "fst r"; cases "snd r") (auto simp: http1_request_body_framing_def)
  qed (simp add: http1_request_body_framing_def)
  moreover have "v \<noteq> Http10 \<longleftrightarrow> v = Http11" by (cases v) simp_all
  ultimately show ?thesis
    unfolding framing_fields_iff at_most_once_None by (cases f) auto
qed

text \<open>
  C8. Body framing is unambiguous. The framing the parser accepts is exactly the declarative one:
  chunked only for HTTP/1.1 with a single \<open>Transfer-Encoding: chunked\<close> and no \<open>Content-Length\<close>;
  a length only from a single \<open>Content-Length\<close> of decimal digits below \<open>2 ^ 64\<close> and no
  \<open>Transfer-Encoding\<close>; no body only when both say so. Every other combination is an error, so no
  request is accepted that two hops could frame differently.
\<close>

theorem body_framing_unambiguous:
  "http1_request_body_framing v hs = Ok f \<longleftrightarrow> framing_spec v hs f"
  by (rule request_body_framing_iff)


section \<open>The authority of a request\<close>

fun target_authority :: "request_target \<Rightarrow> string option" where
  "target_authority (AbsoluteUri raw scheme authority path query) = authority"
| "target_authority (AuthorityForm raw port) = Some raw"
| "target_authority (Origin raw path query) = None"
| "target_authority Asterisk = None"

definition host_value :: "http1_header \<Rightarrow> string \<Rightarrow> bool" where
  "host_value h a \<longleftrightarrow> a = trim (hdr_value h) \<and> validate_http1_authority a = Ok ()"

lemma host_field_iff:
  "host_field hs host = Ok r \<longleftrightarrow> at_most_once host (named ''host'' hs) host_value r"
proof (induction hs host rule: host_field.induct)
  case (1 host)
  then show ?case by (auto simp: at_most_once_def named_def split: option.split)
next
  case (2 h hs host)
  show ?case
  proof (cases "eq_ignore_ascii_case (hdr_name h) ''host''")
    case True
    let ?a = "trim (hdr_value h)"
    have "host_field (h # hs) host = Ok r \<longleftrightarrow>
        host = None \<and> validate_http1_authority ?a = Ok () \<and> host_field hs (Some ?a) = Ok r"
      using True by (cases "validate_http1_authority ?a") (auto simp: Let_def)
    then show ?thesis
      using True 2(1) [OF True _ refl]
      by (auto simp: named_Cons at_most_once_Cons host_value_def)
  next
    case False
    then show ?thesis using 2(2) by (simp add: named_Cons)
  qed
qed

lemma effective_authority_Ok:
  assumes "effective_authority h = Ok a" and "raw_request_target h = Ok t"
  shows "\<exists>host. http1_optional_host (rh_headers h) = Ok host \<and> validate_http1_authority a = Ok () \<and>
    (\<forall>x. host = Some x \<longrightarrow> eq_ignore_ascii_case a x) \<and>
    (case target_authority t of Some b \<Rightarrow> a = b | None \<Rightarrow> host = Some a)"
proof -
  from assms obtain host where host: "http1_optional_host (rh_headers h) = Ok host"
    by (auto simp: effective_authority_def result_simps)
  have valid: "host = Some x \<Longrightarrow> validate_http1_authority x = Ok ()" for x
    using host by (auto simp: http1_optional_host_def host_field_iff at_most_once_None host_value_def)
  show ?thesis
    using assms host valid
    by (cases t) (auto simp: effective_authority_def result_simps Let_def
        split: option.splits if_splits)
qed

lemma validate_authority_port_Err: "validate_authority_port p = Err e \<Longrightarrow> e = InvalidAuthority"
  by (cases "parse_u16 p") (auto simp: validate_authority_port_def split: if_splits)

lemma validate_http1_authority_Err: "validate_http1_authority a = Err e \<Longrightarrow> e = InvalidAuthority"
  by (auto simp: validate_http1_authority_def validate_bracketed_def Let_def
      dest: validate_authority_port_Err split: option.splits if_splits prod.splits)

lemma effective_authority_missing:
  assumes "effective_authority h = Err MissingHost" and "raw_request_target h = Ok t"
    and "http1_optional_host (rh_headers h) = Ok host"
  shows "host = None \<and> target_authority t = None"
  using assms validate_http1_authority_Err [of _ MissingHost]
  by (cases t; cases host)
    (auto simp: effective_authority_def and_then_eq_Err Let_def split: option.splits if_splits)

lemma validate_message_Ok:
  assumes "validate_message h = Ok v"
  shows "raw_request_target h = Ok (rv_request_target v)"
    and "http1_request_body_framing (rh_version h) (rh_headers h) = Ok (rv_body_framing v)"
    and "http1_connection_directive (rh_version h) (rh_headers h) = Ok (rv_connection_directive v)"
    and "rh_version h = Http11 \<Longrightarrow> is_ok (http1_required_host (rh_headers h))"
    and "effective_authority h = Err MissingHost \<and> rh_version h = Http10 \<and> rv_effective_authority v = None \<or>
      (\<exists>a. effective_authority h = Ok a \<and> rv_effective_authority v = Some a)"
  using assms
  by (auto simp: validate_message_def result_simps is_ok_iff split: result.splits if_splits)

definition authority_spec :: "validated_request_head \<Rightarrow> bool" where
  "authority_spec h \<longleftrightarrow>
     (let hosts = named ''host'' (rh_headers (vh_head h));
          version = rh_version (vh_head h);
          target = rv_request_target (vh_validation h)
      in length hosts \<le> 1 \<and> (version = Http11 \<longrightarrow> hosts \<noteq> []) \<and>
         (case rv_effective_authority (vh_validation h) of
            None \<Rightarrow> version = Http10 \<and> hosts = [] \<and> target_authority target = None
          | Some a \<Rightarrow>
              authority_ok a \<and> (\<forall>x \<in> set hosts. eq_ignore_ascii_case a (trim (hdr_value x))) \<and>
              (case target_authority target of
                 Some b \<Rightarrow> a = b
               | None \<Rightarrow> hosts \<noteq> [] \<and> a = trim (hdr_value (hd hosts)))))"

lemma optional_host_hosts:
  assumes "http1_optional_host hs = Ok host"
  shows "(host = None \<and> named ''host'' hs = []) \<or>
    (\<exists>x. named ''host'' hs = [x] \<and> host = Some (trim (hdr_value x)))"
  using assms
  by (cases host) (auto simp: http1_optional_host_def host_field_iff at_most_once_None host_value_def)

lemma host_field_Err: "host_field hs host = Err e \<Longrightarrow> e = DuplicateHost \<or> e = InvalidHost"
proof (induction hs host rule: host_field.induct)
  case (2 h hs host)
  then show ?case
    by (cases "validate_http1_authority (trim (hdr_value h))") (auto simp: Let_def split: if_splits)
qed simp

lemma validate_message_authority:
  assumes "validate_message h = Ok v"
  shows "authority_spec \<lparr>vh_head = h, vh_validation = v\<rparr>"
proof -
  note vm = validate_message_Ok [OF assms]
  from vm(5) show ?thesis
  proof (elim disjE exE conjE)
    assume missing: "effective_authority h = Err MissingHost" "rh_version h = Http10"
      "rv_effective_authority v = None"
    obtain host where host: "http1_optional_host (rh_headers h) = Ok host"
      using missing(1) vm(1) host_field_Err [of "rh_headers h" None]
      by (cases "http1_optional_host (rh_headers h)")
        (auto simp: effective_authority_def http1_optional_host_def)
    from effective_authority_missing [OF missing(1) vm(1) host] optional_host_hosts [OF host] missing
    show ?thesis by (simp add: authority_spec_def)
  next
    fix a
    assume a: "effective_authority h = Ok a" "rv_effective_authority v = Some a"
    from effective_authority_Ok [OF a(1) vm(1)] obtain host where
      host: "http1_optional_host (rh_headers h) = Ok host" "validate_http1_authority a = Ok ()"
        "\<forall>x. host = Some x \<longrightarrow> eq_ignore_ascii_case a x"
        "case target_authority (rv_request_target v) of Some b \<Rightarrow> a = b | None \<Rightarrow> host = Some a"
      by blast
    have "rh_version h = Http11 \<Longrightarrow> host \<noteq> None"
      using vm(4) host(1) by (cases host) (auto simp: http1_required_host_def)
    with optional_host_hosts [OF host(1)] host a(2) validate_http1_authority_Ok [OF host(2)]
    show ?thesis by (auto simp: authority_spec_def split: option.splits)
  qed
qed

text \<open>
  C9. The authority of an accepted request is unambiguous. There is at most one \<open>Host\<close> field, exactly
  one for HTTP/1.1; the effective authority is the one of the request target where the target has
  one, and then any \<open>Host\<close> field agrees with it up to case; otherwise it is the \<open>Host\<close> field. Only an
  HTTP/1.0 request without \<open>Host\<close> has none. The validated framing and persistence are those of the
  same fields.
\<close>

theorem request_authority_unambiguous:
  assumes "parse_http1_request_head input limits = Ok (Some h)"
  shows "authority_spec h \<and>
    http1_request_target (rh_method (vh_head h)) (rh_target (vh_head h)) =
      Ok (rv_request_target (vh_validation h)) \<and>
    framing_spec (rh_version (vh_head h)) (rh_headers (vh_head h)) (rv_body_framing (vh_validation h)) \<and>
    (rv_connection_directive (vh_validation h) = Persistent \<longleftrightarrow>
       \<not> (\<exists>t \<in> set (connection_tokens (rh_headers (vh_head h))). eq_ignore_ascii_case t ''close'') \<and>
       (rh_version (vh_head h) = Http11 \<or>
        (\<exists>t \<in> set (connection_tokens (rh_headers (vh_head h))). eq_ignore_ascii_case t ''keep-alive'')))"
proof -
  from assms obtain r v where h: "h = \<lparr>vh_head = r, vh_validation = v\<rparr>" and v: "validate_message r = Ok v"
    by (auto simp: parse_http1_request_head_def result_simps split: option.splits)
  note vm = validate_message_Ok [OF v]
  show ?thesis
    unfolding h using validate_message_authority [OF v] vm(1)
      request_body_framing_iff [THEN iffD1, OF vm(2)] connection_directive_iff [OF vm(3)]
    by (simp add: raw_request_target_def)
qed

theorem request_authority_unambiguous_witness:
  "\<exists>h. parse_http1_request_head
      (''GET http://h.example/ HTTP/1.1'' @ [CR, LF] @ ''Host: H.example'' @ [CR, LF] @
       ''Connection: close'' @ [CR, LF, CR, LF]) default_head_limits = Ok (Some h) \<and> authority_spec h"
proof -
  let ?i = "''GET http://h.example/ HTTP/1.1'' @ [CR, LF] @ ''Host: H.example'' @ [CR, LF] @
       ''Connection: close'' @ [CR, LF, CR, LF]"
  have "is_ok (parse_http1_request_head ?i default_head_limits)" by code_simp
  moreover have "parse_http1_request_head ?i default_head_limits \<noteq> Ok None"
    unfolding parse_head_None_iff by code_simp
  ultimately obtain h where "parse_http1_request_head ?i default_head_limits = Ok (Some h)"
    by (auto simp: is_ok_iff)
  with request_authority_unambiguous [OF this] show ?thesis by blast
qed

end
