(* ===== verification/Http1_Response.thy ===== *)
theory Http1_Response
  imports Http1_Head_Props
begin

text \<open>
  Response heads of \<open>crates/fluxheim-protocol/src/http1_response.rs\<close>: the status line, the header
  lines, and the round trip between a head and its bytes.
\<close>

section \<open>Definitions\<close>

record http1_response_head =
  rs_version :: http1_version
  rs_status :: nat
  rs_reason :: string
  rs_headers :: "http1_header list"
  rs_head_len :: nat

text \<open>\<open>str::splitn\<close>: at most \<open>n\<close> pieces, the last one with what is left.\<close>

fun splitn :: "nat \<Rightarrow> char \<Rightarrow> string \<Rightarrow> string list" where
  "splitn 0 d s = []"
| "splitn (Suc 0) d s = [s]"
| "splitn (Suc (Suc n)) d s =
     (case split_once d s of None \<Rightarrow> [s] | Some (a, b) \<Rightarrow> a # splitn (Suc n) d b)"

definition parse_status :: "string \<Rightarrow> nat h1result" where
  "parse_status status =
     (if length status \<noteq> 3 \<or> \<not> list_all is_ascii_digit status then Err InvalidStatusCode
      else and_then (ok_or (parse_u16 status) InvalidStatusCode) (\<lambda>code.
        if \<not> (100 \<le> code \<and> code \<le> 599) then Err InvalidStatusCode else Ok code))"

definition parse_status_line :: "string \<Rightarrow> (http1_version \<times> nat \<times> string) h1result" where
  "parse_status_line line =
     (case splitn 3 SP line of
        version # status # rest \<Rightarrow>
          let reason = (case rest of [] \<Rightarrow> [] | r # _ \<Rightarrow> r)
          in and_then
               (if version = ''HTTP/1.0'' then Ok Http10
                else if version = ''HTTP/1.1'' then Ok Http11
                else Err UnsupportedVersion)
               (\<lambda>v. and_then (parse_status status) (\<lambda>code.
                 if list_ex field_value_forbidden reason then Err InvalidResponseLine
                 else Ok (v, code, reason)))
      | _ \<Rightarrow> Err InvalidResponseLine)"

definition parse_http1_response_head ::
    "bytes \<Rightarrow> http1_head_limits \<Rightarrow> http1_response_head option h1result" where
  "parse_http1_response_head input limits =
     and_then (complete_head_len input (max_head_bytes limits)) (\<lambda>r.
       case r of
         None \<Rightarrow> Ok None
       | Some head_len \<Rightarrow>
           if \<not> utf8_valid (take head_len input) then Err InvalidUtf8
           else (case split_crlf (take head_len input) of
             [] \<Rightarrow> Err InvalidResponseLine
           | status_line # lines \<Rightarrow>
               if length status_line > max_start_line_bytes limits then Err StartLineTooLong
               else and_then (parse_status_line status_line) (\<lambda>(version, status, reason).
                 and_then (parse_header_lines limits lines []) (\<lambda>headers.
                   Ok (Some \<lparr>rs_version = version, rs_status = status, rs_reason = reason,
                             rs_headers = headers, rs_head_len = head_len\<rparr>)))))"


section \<open>Bytes of a head\<close>

lemma head_ends_at_append2: "head_ends_at (a @ b) (length a + j) \<longleftrightarrow> head_ends_at b j"
  by (simp add: head_ends_at_def)

lemma head_ends_at_chars:
  "head_ends_at s j \<Longrightarrow> s ! j = CR \<and> s ! Suc j = LF \<and> s ! (j + 2) = CR"
proof -
  assume e: "head_ends_at s j"
  then have t: "take 4 (drop j s) = [CR, LF, CR, LF]" and len: "j + 4 \<le> length s"
    by (auto simp: head_ends_at_def head_ends_at_less)
  have "s ! (j + k) = [CR, LF, CR, LF] ! k" if "k < 4" for k
    using that len by (subst t [symmetric]) simp
  from this [of 0] this [of 1] this [of 2] show ?thesis by simp
qed

definition plain_line :: "string \<Rightarrow> bool" where
  "plain_line l \<longleftrightarrow> l \<noteq> [] \<and> list_all (\<lambda>c. c \<noteq> CR \<and> byte c < 128) l"

lemma no_early_end:
  assumes "list_all plain_line ls" and "ls \<noteq> []" and "j < length (join_with [CR, LF] ls)"
  shows "\<not> head_ends_at (join_with [CR, LF] ls @ [CR, LF, CR, LF] @ body) j"
  using assms
proof (induction ls arbitrary: j)
  case Nil
  then show ?case by simp
next
  case (Cons l ls)
  let ?rest = "if ls = [] then [] else [CR, LF] @ join_with [CR, LF] ls"
  have s: "join_with [CR, LF] (l # ls) = l @ ?rest"
    by (cases ls) simp_all
  have nocr: "\<And>k. k < length l \<Longrightarrow> l ! k \<noteq> CR"
    using Cons.prems(1) by (auto simp: plain_line_def list_all_iff)
  show ?case
  proof (cases "j < length l")
    case True
    then show ?thesis
      using nocr [OF True] by (auto simp: s nth_append dest!: head_ends_at_chars)
  next
    case False
    with Cons.prems(3) s have ne: "ls \<noteq> []" by auto
    let ?t = "join_with [CR, LF] ls @ [CR, LF, CR, LF] @ body"
    have all: "join_with [CR, LF] (l # ls) @ [CR, LF, CR, LF] @ body = l @ [CR, LF] @ ?t"
      using ne by (simp add: s)
    obtain x xs where x: "ls = x # xs" "x \<noteq> []" "hd x \<noteq> CR"
      using ne Cons.prems(1) by (cases ls) (auto simp: plain_line_def list_all_iff)
    then have hd: "?t ! 0 = hd x" "?t \<noteq> []"
      by (cases x; cases xs; simp)+
    have "j = length l \<or> j = length l + 1 \<or> (\<exists>k. j = length l + 2 + k)"
      using False by presburger
    then consider "j = length l" | "j = length l + 1" | k where "j = length l + 2 + k"
      by blast
    then show ?thesis
    proof cases
      case 1
      then show ?thesis
        unfolding all using hd x(3) head_ends_at_chars [of "l @ [CR, LF] @ ?t" j]
        by (auto simp: nth_append)
    next
      case 2
      then show ?thesis
        unfolding all using head_ends_at_chars [of "l @ [CR, LF] @ ?t" j]
        by (auto simp: nth_append)
    next
      case (3 k)
      then have "k < length (join_with [CR, LF] ls)"
        using Cons.prems(3) ne by (simp add: s)
      then have "\<not> head_ends_at ?t k"
        using Cons.IH [of k] Cons.prems(1) ne by simp
      then show ?thesis
        unfolding all 3 using head_ends_at_append2 [of "l @ [CR, LF]" ?t k] by simp
    qed
  qed
qed

lemma plain_field_line:
  assumes "raw_field_ok f"
  shows "plain_line (field_line f)"
proof -
  have "c \<noteq> CR \<and> byte c < 128" if "c \<in> set (field_line f)" for c
  proof -
    from that consider "c \<in> set (fst f)" | "c = CHR '':''" | "c \<in> set (snd f)"
      by (auto simp: field_line_def)
    then have "byte c = 9 \<or> 32 \<le> byte c \<and> byte c < 127"
    proof cases
      case 1
      with assms show ?thesis
        by (auto simp: raw_field_ok_def http_token_valid_def list_all_iff dest!: bspec http_token_byte_range)
    next
      case 2
      then show ?thesis by (simp add: byte_def)
    next
      case 3
      with assms show ?thesis
        by (auto simp: raw_field_ok_def list_all_iff field_value_allowed_iff)
    qed
    then show ?thesis by auto
  qed
  then show ?thesis
    using field_line_start(1) [OF assms] by (simp add: plain_line_def list_all_iff)
qed

lemma is_ascii_join:
  "list_all plain_line ls \<Longrightarrow> is_ascii (join_with [CR, LF] ls)"
proof (induction ls)
  case (Cons l ls)
  then show ?case
    by (cases "ls = []") (auto simp: join_with_Cons is_ascii_def plain_line_def list_all_iff)
qed (simp add: is_ascii_def)

lemma split_crlf_single: "CR \<notin> set l \<Longrightarrow> split_crlf l = [l]"
  by (induction l rule: split_crlf.induct) auto

lemma split_crlf_join:
  "list_all plain_line ls \<Longrightarrow> ls \<noteq> [] \<Longrightarrow> split_crlf (join_with [CR, LF] ls) = ls"
proof (induction ls)
  case (Cons l ls)
  then have "split_crlf l = [l]"
    by (intro split_crlf_single) (auto simp: plain_line_def list_all_iff)
  with Cons show ?case
    by (cases "ls = []") (simp_all add: join_with_Cons split_crlf_append)
qed simp

lemma print_head_parts:
  assumes "plain_line l" and "list_all raw_field_ok fs" and "m \<le> u64_max"
    and "length (print_head l fs) \<le> m"
  shows "complete_head_len (print_head l fs @ body) m = Ok (Some (length (print_head l fs)))"
    and "split_crlf (print_head l fs) = l # map field_line fs @ [[], []]"
    and "utf8_valid (print_head l fs)"
proof -
  define ls where "ls = l # map field_line fs"
  have plain: "list_all plain_line ls" "ls \<noteq> []"
    using assms(1,2) plain_field_line by (auto simp: ls_def list_all_iff)
  have p: "print_head l fs = join_with [CR, LF] ls @ [CR, LF, CR, LF]"
    by (simp add: print_head_join ls_def)
  have "first_head_end (print_head l fs @ body) (length (join_with [CR, LF] ls))"
    unfolding first_head_end_def p using no_early_end [OF plain]
    by (simp add: head_ends_at_def)
  from complete_head_len_Some [OF assms(3) this] assms(4)
  show "complete_head_len (print_head l fs @ body) m = Ok (Some (length (print_head l fs)))"
    by (simp add: p)
  show "split_crlf (print_head l fs) = l # map field_line fs @ [[], []]"
    using split_crlf_append [of "join_with [CR, LF] ls" "[CR, LF]"] split_crlf_append [of "[]" "[]"]
    by (simp add: p split_crlf_join [OF plain]) (simp add: ls_def)
  from is_ascii_join [OF plain(1)] show "utf8_valid (print_head l fs)"
    unfolding p by (intro utf8_valid_ascii) (simp add: is_ascii_def)
qed



section \<open>Round trips\<close>

definition status_line :: "http1_version \<Rightarrow> nat \<Rightarrow> string \<Rightarrow> string" where
  "status_line v code reason = version_string v @ [SP] @ dec_string code @ [SP] @ reason"

lemma length_dec_string_3: "100 \<le> n \<Longrightarrow> n \<le> 599 \<Longrightarrow> length (dec_string n) = 3"
proof -
  assume "100 \<le> n" "n \<le> 599"
  then have "\<not> n < 10" "\<not> n div 10 < 10" "n div 10 div 10 < 10" by auto
  then show ?thesis
    by (simp add: dec_string.simps [of n] dec_string.simps [of "n div 10"]
        dec_string.simps [of "n div 10 div 10"] del: dec_string.simps)
qed

lemma parse_status_dec_string:
  assumes "100 \<le> n" "n \<le> 599"
  shows "parse_status (dec_string n) = Ok n"
  using assms
  by (simp add: parse_status_def length_dec_string_3 dec_string_digits parse_u16_def
      parse_unsigned_dec_string del: dec_string.simps)

lemma SP_neq_CR [simp]: "SP \<noteq> CR"
  by (simp add: SP_def CR_def)

lemma plain_version: "list_all (\<lambda>c. c \<noteq> CR \<and> byte c < 128) (version_string v)"
  by (cases v) (simp_all add: version_string_def CR_def byte_def)

lemma version_no_space: "SP \<notin> set (version_string v)"
  by (cases v) (simp_all add: version_string_def SP_def)

lemma dec_string_no_space: "SP \<notin> set (dec_string n)"
  using dec_string_digits [of n]
  by (auto simp: list_all_iff is_ascii_digit_def byte_in_def simp del: dec_string.simps)

lemma parse_status_line_print:
  assumes "100 \<le> code" "code \<le> 599" "list_all (\<lambda>c. \<not> field_value_forbidden c) reason"
  shows "parse_status_line (status_line v code reason) = Ok (v, code, reason)"
proof -
  have "split_once SP (status_line v code reason) = Some (version_string v, dec_string code @ SP # reason)"
    by (simp add: split_once_eq_Some status_line_def version_no_space del: dec_string.simps)
  moreover have "split_once SP (dec_string code @ SP # reason) = Some (dec_string code, reason)"
    by (simp add: split_once_eq_Some dec_string_no_space del: dec_string.simps)
  ultimately have "splitn 3 SP (status_line v code reason) = [version_string v, dec_string code, reason]"
    by (simp add: numeral_3_eq_3)
  moreover have "\<not> list_ex field_value_forbidden reason"
    using assms(3) by (auto simp: list_all_iff list_ex_iff)
  ultimately show ?thesis
    using assms(1,2)
    by (cases v) (simp_all add: parse_status_line_def parse_status_dec_string version_string_def
        del: dec_string.simps)
qed

lemma plain_status_line:
  assumes "list_all (\<lambda>c. \<not> field_value_forbidden c) reason"
  shows "plain_line (status_line v code reason)"
proof -
  have "c \<noteq> CR \<and> byte c < 128" if "is_ascii_digit c" for c
    using that by (auto simp: is_ascii_digit_def byte_in_def)
  then have "list_all (\<lambda>c. c \<noteq> CR \<and> byte c < 128) (dec_string code)"
    using dec_string_digits [of code] by (simp add: list_all_iff del: dec_string.simps)
  moreover have "c \<noteq> CR \<and> byte c < 128" if "\<not> field_value_forbidden c" for c
    using that by (auto simp: field_value_allowed_iff)
  then have "list_all (\<lambda>c. c \<noteq> CR \<and> byte c < 128) reason"
    using assms by (simp add: list_all_iff)
  ultimately show ?thesis
    using plain_version [of v]
    by (auto simp add: plain_line_def status_line_def simp del: dec_string.simps)
qed

text \<open>
  C10. Response heads round trip. The bytes of a response head with a status from 100 to 599, fields
  with token names and printable values, and sizes within the limits parse back to exactly that
  head, whatever follows it, and the parser reports the length of the head.
\<close>

theorem response_head_roundtrip:
  assumes "100 \<le> code" "code \<le> 599" "list_all (\<lambda>c. \<not> field_value_forbidden c) reason"
    and "list_all raw_field_ok fs" and "lines_within limits fs"
    and "length (status_line v code reason) \<le> max_start_line_bytes limits"
    and "length (print_head (status_line v code reason) fs) \<le> max_head_bytes limits"
    and "max_head_bytes limits \<le> u64_max"
  shows "parse_http1_response_head (print_head (status_line v code reason) fs @ body) limits =
    Ok (Some \<lparr>rs_version = v, rs_status = code, rs_reason = reason, rs_headers = map field_header fs,
              rs_head_len = length (print_head (status_line v code reason) fs)\<rparr>)"
proof -
  note parts = print_head_parts [OF plain_status_line [OF assms(3)] assms(4) assms(8) assms(7)]
  have "parse_header_lines limits (map field_line fs @ [[], []]) [] = Ok (map field_header fs)"
    using parse_header_lines_print [of fs "[]" limits "[[]]"] assms(4,5) by (simp add: lines_within_def)
  then show ?thesis
    using assms(6) parse_status_line_print [OF assms(1-3), of v]
    by (simp add: parse_http1_response_head_def parts)
qed

theorem response_head_roundtrip_witness:
  "parse_http1_response_head (print_head (status_line Http11 200 ''OK'') [(''Content-Length'', '' 2'')] @ ''hi'')
     default_head_limits =
   Ok (Some \<lparr>rs_version = Http11, rs_status = 200, rs_reason = ''OK'',
             rs_headers = map field_header [(''Content-Length'', '' 2'')],
             rs_head_len = length (print_head (status_line Http11 200 ''OK'') [(''Content-Length'', '' 2'')])\<rparr>)"
  by (rule response_head_roundtrip) code_simp+

text \<open>
  C11. Request heads round trip. A request line with a token method and an acceptable target, and
  fields with token names and printable values within the limits, parse back to exactly those parts
  whatever follows.
\<close>

theorem request_head_roundtrip:
  assumes "request_line_ok m t" and "list_all raw_field_ok fs" and "lines_within limits fs"
    and "length (request_line m t v) \<le> max_start_line_bytes limits"
    and "length (print_head (request_line m t v) fs) \<le> max_head_bytes limits"
    and "max_head_bytes limits \<le> u64_max"
  shows "parse_http1_request_head_raw (print_head (request_line m t v) fs @ body) limits =
    Ok (Some \<lparr>rh_method = m, rh_target = t, rh_version = v, rh_headers = map field_header fs,
              rh_head_len = length (print_head (request_line m t v) fs)\<rparr>)"
proof -
  have "plain_line (request_line m t v)"
  proof -
    have "33 \<le> byte c \<and> byte c < 127" if "c \<in> set m \<or> c \<in> set t" for c
      using that assms(1) request_target_bytes [of m t c] http_token_byte_range [of c]
      by (auto simp: request_line_ok_def http_token_valid_def list_all_iff)
    then have "c \<noteq> CR \<and> byte c < 128" if "c \<in> set m \<or> c \<in> set t" for c
      using that by fastforce
    with plain_version [of v] show ?thesis
      by (auto simp: plain_line_def request_line_def list_all_iff)
  qed
  note parts = print_head_parts [OF this assms(2,6,5)]
  have "parse_header_lines limits (map field_line fs @ [[], []]) [] = Ok (map field_header fs)"
    using parse_header_lines_print [of fs "[]" limits "[[]]"] assms(2,3) by (simp add: lines_within_def)
  moreover have "parse_request_line (request_line m t v) = Ok (m, t, v)"
    using assms(1) by (simp add: parse_request_line_iff)
  ultimately show ?thesis
    using assms(4) by (simp add: parse_http1_request_head_raw_def parts)
qed

theorem request_head_roundtrip_witness:
  "parse_http1_request_head_raw (print_head (request_line ''GET'' ''/'' Http11) [(''Host'', '' a.b'')] @ ''x'')
     default_head_limits =
   Ok (Some \<lparr>rh_method = ''GET'', rh_target = ''/'', rh_version = Http11,
             rh_headers = map field_header [(''Host'', '' a.b'')],
             rh_head_len = length (print_head (request_line ''GET'' ''/'' Http11) [(''Host'', '' a.b'')])\<rparr>)"
  by (rule request_head_roundtrip) code_simp+

end
