(* ===== verification/Net_Display.thy ===== *)
theory Net_Display
  imports Net_Addr
begin

text \<open>
  The \<open>Display\<close> output of IP addresses and its round trip through the address parser: dotted
  decimals for IPv4; for IPv6 lower-case hexadecimal groups with the first longest run of at least
  two zero groups written \<open>::\<close>, and IPv4-mapped addresses with a dotted tail.
\<close>

section \<open>Definitions\<close>

definition octet :: "ipv4 \<Rightarrow> nat \<Rightarrow> nat" where
  "octet a i = unat a div 256 ^ (3 - i) mod 256"

definition display_ipv4 :: "ipv4 \<Rightarrow> string" where
  "display_ipv4 a = join_with ''.'' (map (\<lambda>i. dec_string (octet a i)) [0, 1, 2, 3])"

definition segment :: "ipv6 \<Rightarrow> nat \<Rightarrow> nat" where
  "segment a i = unat a div 65536 ^ (7 - i) mod 65536"

definition segments :: "ipv6 \<Rightarrow> nat list" where
  "segments a = map (segment a) [0, 1, 2, 3, 4, 5, 6, 7]"

definition lower_hex_digit :: "nat \<Rightarrow> char" where
  "lower_hex_digit n = (if n < 10 then char_of (48 + n) else char_of (87 + n))"

fun lower_hex :: "nat \<Rightarrow> string" where
  "lower_hex n =
     (if n < 16 then [lower_hex_digit n] else lower_hex (n div 16) @ [lower_hex_digit (n mod 16)])"

declare lower_hex.simps [simp del]

text \<open>\<open>to_ipv4_mapped\<close>: five zero groups and \<open>ffff\<close>.\<close>

definition to_ipv4_mapped :: "ipv6 \<Rightarrow> ipv4 option" where
  "to_ipv4_mapped a =
     (if unat a div 2 ^ 32 = 0xFFFF then Some (of_nat (unat a mod 2 ^ 32)) else None)"

text \<open>The scan for the first longest run of zero groups: (start, length) of the best and the current run.\<close>

fun zero_runs :: "nat \<Rightarrow> nat list \<Rightarrow> nat \<times> nat \<Rightarrow> nat \<times> nat \<Rightarrow> nat \<times> nat" where
  "zero_runs i [] longest current = longest"
| "zero_runs i (g # gs) longest current =
     (if g = 0 then
        let cur = (if snd current = 0 then i else fst current, snd current + 1)
        in zero_runs (Suc i) gs (if snd cur > snd longest then cur else longest) cur
      else zero_runs (Suc i) gs longest (0, 0))"

definition fmt_subslice :: "nat list \<Rightarrow> string" where
  "fmt_subslice gs = join_with '':'' (map lower_hex gs)"

definition display_ipv6 :: "ipv6 \<Rightarrow> string" where
  "display_ipv6 a =
     (case to_ipv4_mapped a of
        Some v4 \<Rightarrow> ''::ffff:'' @ display_ipv4 v4
      | None \<Rightarrow>
          (case zero_runs 0 (segments a) (0, 0) (0, 0) of (start, len) \<Rightarrow>
             if len > 1
             then fmt_subslice (take start (segments a)) @ ''::'' @
                  fmt_subslice (drop (start + len) (segments a))
             else fmt_subslice (segments a)))"

fun display_ip :: "ip_addr \<Rightarrow> string" where
  "display_ip (V4 a) = display_ipv4 a"
| "display_ip (V6 a) = display_ipv6 a"


section \<open>Reading numbers back\<close>

definition ends_number :: "(char \<Rightarrow> bool) \<Rightarrow> string \<Rightarrow> bool" where
  "ends_number digit r \<longleftrightarrow> r = [] \<or> \<not> digit (hd r)"

lemma takeWhile_digits:
  "list_all digit ds \<Longrightarrow> ends_number digit r \<Longrightarrow> takeWhile digit (ds @ r) = ds"
  by (induction ds) (auto simp: ends_number_def hd_conv_nth takeWhile_eq_Nil_iff)

lemma read_number_digits:
  assumes "list_all digit ds" "ends_number digit r" "ds \<noteq> []" "length ds \<le> k"
    and "zeros \<or> hd ds \<noteq> CHR ''0'' \<or> length ds = 1" and "foldl (\<lambda>n c. radix * n + val c) 0 ds < bound"
  shows "read_number digit val radix k zeros bound (ds @ r) = Some (foldl (\<lambda>n c. radix * n + val c) 0 ds, r)"
  using assms by (auto simp: read_number_def takeWhile_digits)

lemma length_dec_string_le: "n < 1000 \<Longrightarrow> length (dec_string n) \<le> 3"
  by (cases "n < 10"; cases "n div 10 < 10")
    (simp_all add: dec_string.simps [of n] dec_string.simps [of "n div 10"]
      dec_string.simps [of "n div 10 div 10"] del: dec_string.simps)

lemma hd_dec_string: "0 < n \<Longrightarrow> hd (dec_string n) \<noteq> CHR ''0''"
proof (induction n rule: dec_string.induct)
  case (1 n)
  show ?case
  proof (cases "n < 10")
    case True
    then have "byte (char_of (48 + n)) \<noteq> byte (CHR ''0'')" using 1 by (simp add: byte_def)
    then have "char_of (48 + n) \<noteq> CHR ''0''" by metis
    with True show ?thesis by (simp add: dec_string.simps [of n] del: dec_string.simps)
  next
    case False
    with 1 show ?thesis
      by (subst dec_string.simps) (simp add: hd_append del: dec_string.simps)
  qed
qed

lemma read_octet_dec_string:
  assumes "n < 256" and "ends_number is_ascii_digit r"
  shows "read_octet (dec_string n @ r) = Some (n, r)"
proof -
  have lead: "hd (dec_string n) \<noteq> CHR ''0'' \<or> length (dec_string n) = 1"
    using hd_dec_string [of n] by (cases "n = 0") (simp_all add: dec_string.simps [of 0] del: dec_string.simps)
  have "read_number is_ascii_digit digit_value 10 3 False 256 (dec_string n @ r) =
      Some (foldl (\<lambda>m c. 10 * m + digit_value c) 0 (dec_string n), r)"
    using assms length_dec_string_le [of n] digits_value_dec_string [of n] lead
    by (intro read_number_digits dec_string_digits) (auto simp: digits_value_def simp del: dec_string.simps)
  then show ?thesis
    using digits_value_dec_string [of n] by (simp add: read_octet_def digits_value_def)
qed

lemma octet_less [simp]: "octet a i < 256"
  by (simp add: octet_def)

lemma octet_list_value_octets:
  "octet_list_value [octet a 0, octet a 1, octet a 2, octet a 3] = unat a"
proof -
  define x where "x = unat a"
  have less: "x div 256 div 256 div 256 < 256"
    using unsigned_less [of a, where ?'a = nat] by (simp add: x_def div_mult2_eq [symmetric] less_mult_imp_div_less)
  have d: "octet a 0 = x div 256 div 256 div 256 mod 256" "octet a 1 = x div 256 div 256 mod 256"
      "octet a 2 = x div 256 mod 256" "octet a 3 = x mod 256"
    by (simp_all add: octet_def x_def div_mult2_eq [symmetric] numeral_3_eq_3)
  have "octet_list_value [octet a 0, octet a 1, octet a 2, octet a 3] = x"
    unfolding d octet_list_value_def using less by (simp only: foldl_Cons foldl_Nil mod_less) simp
  then show ?thesis by (simp add: x_def)
qed

lemma read_ipv4_display:
  assumes "ends_number is_ascii_digit r"
  shows "read_ipv4_addr (display_ipv4 a @ r) = Some (a, r)"
proof -
  have dot: "ends_number is_ascii_digit (CHR ''.'' # t)" for t
    by (simp add: ends_number_def is_ascii_digit_def byte_in_def byte_def)
  have four: "read_ipv4_groups 4 = read_ipv4_groups (Suc (Suc (Suc (Suc 0))))"
    by (simp add: eval_nat_numeral)
  have "read_ipv4_groups 4 0 (display_ipv4 a @ r) = Some ([octet a 0, octet a 1, octet a 2, octet a 3], r)"
    using assms four
    by (simp add: display_ipv4_def read_separator_def read_char_def
        read_octet_dec_string dot del: dec_string.simps)
  then show ?thesis
    by (simp add: read_ipv4_addr_def octet_list_value_octets [unfolded One_nat_def])
qed

lemma parse_ip_display_ipv4: "parse_ip (display_ipv4 a) = Some (V4 a)"
  using read_ipv4_display [of "[]" a] by (simp add: parse_ip_def parse_with_def ends_number_def)


section \<open>IPv6 groups\<close>

lemma lower_hex_digit_bytes:
  assumes "n < 16"
  shows "is_ascii_hexdigit (lower_hex_digit n)" and "hex_digit_value (lower_hex_digit n) = n"
proof -
  have "is_ascii_hexdigit (lower_hex_digit n) \<and> hex_digit_value (lower_hex_digit n) = n"
    using assms
    by (cases "n < 10") (auto simp: lower_hex_digit_def is_ascii_hexdigit_def hex_digit_value_def
        is_ascii_digit_def byte_in_def)
  then show "is_ascii_hexdigit (lower_hex_digit n)" and "hex_digit_value (lower_hex_digit n) = n"
    by simp_all
qed

lemma lower_hex_digits: "list_all is_ascii_hexdigit (lower_hex n)"
proof (induction n rule: lower_hex.induct)
  case (1 n)
  then show ?case
    by (subst lower_hex.simps) (simp add: lower_hex_digit_bytes)
qed

lemma lower_hex_neq_Nil [simp]: "lower_hex n \<noteq> []"
  by (subst lower_hex.simps) simp

lemma lower_hex_value: "foldl (\<lambda>m c. 16 * m + hex_digit_value c) 0 (lower_hex n) = n"
proof (induction n rule: lower_hex.induct)
  case (1 n)
  then show ?case
    by (subst lower_hex.simps) (simp add: lower_hex_digit_bytes)
qed

lemma length_lower_hex: "n < 65536 \<Longrightarrow> length (lower_hex n) \<le> 4"
proof -
  assume "n < 65536"
  then have "n div 16 div 16 div 16 < 16" by (simp add: div_mult2_eq [symmetric] less_mult_imp_div_less)
  then show ?thesis
    by (simp add: lower_hex.simps [of n] lower_hex.simps [of "n div 16"]
        lower_hex.simps [of "n div 16 div 16"] lower_hex.simps [of "n div 16 div 16 div 16"])
qed

definition group_end :: "string \<Rightarrow> bool" where
  "group_end r \<longleftrightarrow> r = [] \<or> hd r = CHR '':''"

lemma group_end_digits:
  "group_end r \<Longrightarrow> ends_number is_ascii_hexdigit r" "group_end r \<Longrightarrow> ends_number is_ascii_digit r"
  by (auto simp: group_end_def ends_number_def is_ascii_hexdigit_def is_ascii_digit_def byte_in_def byte_def)

lemma read_hextet_lower_hex:
  assumes "n < 65536" and "group_end r"
  shows "read_hextet (lower_hex n @ r) = Some (n, r)"
proof -
  have "read_number is_ascii_hexdigit hex_digit_value 16 4 True 65536 (lower_hex n @ r) =
      Some (foldl (\<lambda>m c. 16 * m + hex_digit_value c) 0 (lower_hex n), r)"
    using assms length_lower_hex [of n] lower_hex_value [of n]
    by (intro read_number_digits lower_hex_digits group_end_digits(1)) auto
  then show ?thesis
    by (simp add: read_hextet_def lower_hex_value)
qed

text \<open>A hexadecimal group is not the start of a dotted address.\<close>

lemma read_octet_rest: "read_octet s = Some (n, r) \<Longrightarrow> r = dropWhile is_ascii_digit s"
  by (auto simp: read_octet_def read_number_def Let_def dropWhile_eq_drop split: if_splits)

lemma read_ipv4_no_dot:
  assumes "dropWhile is_ascii_digit s = [] \<or> hd (dropWhile is_ascii_digit s) \<noteq> CHR ''.''"
  shows "read_ipv4_addr s = None"
proof -
  have "read_ipv4_groups (Suc k) (Suc i) r = None" if "r = [] \<or> hd r \<noteq> CHR ''.''" for k i r
    using that by (cases r) (auto simp: read_separator_def read_char_def)
  then have "read_ipv4_groups (Suc (Suc (Suc (Suc 0)))) 0 s = None"
    using assms read_octet_rest [of s]
    by (auto simp: read_separator_def simp del: read_ipv4_groups.simps
        simp: read_ipv4_groups.simps(2) [of "Suc (Suc (Suc 0))" 0 s] split: option.split)
  then show ?thesis by (simp add: read_ipv4_addr_def eval_nat_numeral)
qed

lemma read_ipv4_lower_hex:
  assumes "group_end r"
  shows "read_ipv4_addr (lower_hex n @ r) = None"
proof (rule read_ipv4_no_dot)
  have no_dot: "CHR ''.'' \<notin> set (lower_hex n)"
    using lower_hex_digits [of n]
    by (auto simp: list_all_iff is_ascii_hexdigit_def is_ascii_digit_def byte_in_def byte_def)
  have r: "dropWhile is_ascii_digit r = r"
    using group_end_digits(2) [OF assms] by (cases r) (auto simp: ends_number_def)
  show "dropWhile is_ascii_digit (lower_hex n @ r) = [] \<or>
      hd (dropWhile is_ascii_digit (lower_hex n @ r)) \<noteq> CHR ''.''"
  proof (cases "\<forall>c \<in> set (lower_hex n). is_ascii_digit c")
    case True
    then show ?thesis using r assms by (auto simp: dropWhile_append group_end_def)
  next
    case False
    then obtain c where c: "c \<in> set (lower_hex n)" "\<not> is_ascii_digit c" by blast
    have ne: "dropWhile is_ascii_digit (lower_hex n) \<noteq> []"
      using c by (auto simp: dropWhile_eq_Nil_conv)
    have "hd (dropWhile is_ascii_digit (lower_hex n)) \<in> set (lower_hex n)"
      using ne by (meson hd_in_set set_dropWhileD)
    with no_dot have "hd (dropWhile is_ascii_digit (lower_hex n)) \<noteq> CHR ''.''" by auto
    then show ?thesis
      using dropWhile_append1 [of c "lower_hex n" is_ascii_digit r] c ne by simp
  qed
qed

lemma read_at_colon:
  "read_ipv4_addr (CHR '':'' # t) = None" "read_hextet (CHR '':'' # t) = None"
  "read_ipv4_addr [] = None" "read_hextet [] = None"
proof -
  have colon: "\<not> is_ascii_digit (CHR '':'')" "\<not> is_ascii_hexdigit (CHR '':'')"
    by (simp_all add: is_ascii_hexdigit_def is_ascii_digit_def byte_in_def byte_def)
  then show "read_ipv4_addr (CHR '':'' # t) = None" "read_ipv4_addr [] = None"
    by (simp_all add: read_ipv4_no_dot)
  show "read_hextet (CHR '':'' # t) = None" "read_hextet [] = None"
    using colon by (simp_all add: read_hextet_def read_number_def)
qed

lemma read_groups_stop:
  assumes "r = [] \<or> (\<exists>t. r = CHR '':'' # CHR '':'' # t)"
  shows "read_groups k i r = ([], False, r)"
proof (cases k)
  case (Suc k')
  then show ?thesis
    using assms by (auto simp: read_separator_def read_char_def read_at_colon)
qed simp

definition colon_groups :: "nat list \<Rightarrow> string" where
  "colon_groups gs = concat (map (\<lambda>g. CHR '':'' # lower_hex g) gs)"

lemma colon_groups_Nil [simp]: "colon_groups [] = []"
  by (simp add: colon_groups_def)

lemma fmt_subslice_Cons: "fmt_subslice (g # gs) = lower_hex g @ colon_groups gs"
proof (induction gs arbitrary: g)
  case Nil
  then show ?case by (simp add: fmt_subslice_def colon_groups_def)
next
  case (Cons h gs)
  have "fmt_subslice (g # h # gs) = lower_hex g @ '':'' @ fmt_subslice (h # gs)"
    by (simp add: fmt_subslice_def)
  with Cons show ?case by (simp add: colon_groups_def)
qed

lemma group_end_colon_groups: "group_end r \<Longrightarrow> group_end (colon_groups gs @ r)"
  by (cases gs) (auto simp: group_end_def colon_groups_def)

definition group_stop :: "string \<Rightarrow> bool" where
  "group_stop r \<longleftrightarrow> r = [] \<or> (\<exists>t. r = CHR '':'' # CHR '':'' # t)"

lemma group_stop_end: "group_stop r \<Longrightarrow> group_end r"
  by (auto simp: group_stop_def group_end_def)

lemma read_groups_colon:
  assumes "list_all (\<lambda>g. g < 65536) gs" and "length gs \<le> k" and "group_stop r"
  shows "read_groups k (Suc i) (colon_groups gs @ r) = (gs, False, r)"
  using assms
proof (induction gs arbitrary: k i)
  case Nil
  then show ?case by (simp add: colon_groups_def read_groups_stop group_stop_def)
next
  case (Cons g gs)
  then obtain k' where k: "k = Suc k'" "length gs \<le> k'" by (cases k) auto
  have e: "group_end (colon_groups gs @ r)"
    using Cons.prems(3) by (intro group_end_colon_groups group_stop_end)
  have s: "colon_groups (g # gs) @ r = CHR '':'' # lower_hex g @ colon_groups gs @ r"
    by (simp add: colon_groups_def)
  show ?case
    unfolding k(1) s using Cons.IH [of k' "Suc i"] Cons.prems k(2) e
    by (auto simp: read_separator_def read_char_def read_ipv4_lower_hex read_hextet_lower_hex)
qed

lemma read_groups_fmt:
  assumes "list_all (\<lambda>g. g < 65536) gs" and "length gs \<le> k" and "group_stop r"
  shows "read_groups k 0 (fmt_subslice gs @ r) = (gs, False, r)"
proof (cases gs)
  case Nil
  then show ?thesis
    using assms(3) by (simp add: fmt_subslice_def read_groups_stop group_stop_def)
next
  case (Cons g gs')
  with assms(2) obtain k' where k: "k = Suc k'" "length gs' \<le> k'" by (cases k) auto
  have e: "group_end (colon_groups gs' @ r)"
    using assms(3) by (intro group_end_colon_groups group_stop_end)
  show ?thesis
    unfolding k(1) Cons fmt_subslice_Cons
    using read_groups_colon [of gs' k' r 0] assms(1,3) k(2) e Cons
    by (auto simp: read_separator_def read_ipv4_lower_hex read_hextet_lower_hex)
qed


section \<open>The value of the groups\<close>

lemma radix_digits:
  fixes x :: nat
  assumes "0 < b"
  shows "foldl (\<lambda>v g. b * v + g) 0 (map (\<lambda>i. x div b ^ (k - Suc i) mod b) [0..<k]) = x mod b ^ k"
proof (induction k arbitrary: x)
  case 0
  then show ?case by simp
next
  case (Suc k)
  define f where "f i = x div b ^ (Suc k - Suc i) mod b" for i
  have m: "map f [0..<k] = map (\<lambda>i. (x div b) div b ^ (k - Suc i) mod b) [0..<k]"
  proof (rule map_cong [OF refl])
    fix i assume "i \<in> set [0..<k]"
    then have "Suc k - Suc i = Suc (k - Suc i)" by auto
    then show "f i = (x div b) div b ^ (k - Suc i) mod b"
      by (simp add: f_def div_mult2_eq)
  qed
  have "foldl (\<lambda>v g. b * v + g) 0 (map f [0..<Suc k]) =
      b * foldl (\<lambda>v g. b * v + g) 0 (map f [0..<k]) + f k"
    by simp
  also have "\<dots> = b * (x div b mod b ^ k) + x mod b"
    unfolding m Suc by (simp add: f_def)
  also have "\<dots> = x mod b ^ Suc k" by (simp add: mod_mult2_eq)
  finally show ?case unfolding f_def .
qed

lemma segments_upt: "segments a = map (\<lambda>i. unat a div 65536 ^ (8 - Suc i) mod 65536) [0..<8]"
  by (simp add: segments_def segment_def upt_conv_Cons)

lemma groups_value_segments: "groups_value (segments a) = unat a"
proof -
  have "unat a < 65536 ^ 8" using unsigned_less [of a, where ?'a = nat] by simp
  then show ?thesis
    using radix_digits [of 65536 "unat a" 8]
    unfolding groups_value_def segments_upt by simp
qed

lemma length_segments [simp]: "length (segments a) = 8"
  by (simp add: segments_def)

lemma segments_less: "list_all (\<lambda>g. g < 65536) (segments a)"
  by (simp add: segments_def segment_def)


section \<open>The run of zero groups\<close>

definition zero_run :: "nat list \<Rightarrow> nat \<times> nat \<Rightarrow> bool" where
  "zero_run gs run \<longleftrightarrow> (case run of (start, len) \<Rightarrow>
     start + len \<le> length gs \<and> (\<forall>i. start \<le> i \<and> i < start + len \<longrightarrow> gs ! i = 0))"

lemma zero_runs_zero:
  assumes "zero_run all longest" and "zero_run all current" and "snd current = 0 \<or> fst current + snd current = i"
    and "drop i all = gs" and "i \<le> length all"
  shows "zero_run all (zero_runs i gs longest current)"
  using assms
proof (induction gs arbitrary: i longest current)
  case Nil
  then show ?case by simp
next
  case (Cons g gs)
  have gi: "all ! i = g" "i < length all" and rest: "drop (Suc i) all = gs"
    using Cons.prems(4) by (metis hd_drop_conv_nth list.sel(1) drop_eq_Nil leI list.distinct(1),
        metis drop_eq_Nil leI list.distinct(1), metis drop_Suc list.sel(3) tl_drop)
  show ?case
  proof (cases "g = 0")
    case True
    let ?cur = "(if snd current = 0 then i else fst current, snd current + 1)"
    have "zero_run all ?cur"
      using Cons.prems(2,3) gi True
      by (cases current) (auto simp: zero_run_def less_Suc_eq)
    then show ?thesis
      using True Cons.IH [of "if snd ?cur > snd longest then ?cur else longest" ?cur "Suc i"]
        Cons.prems gi rest
      by (simp add: Let_def) auto
  next
    case False
    then show ?thesis
      using Cons.IH [of longest "(0, 0)" "Suc i"] Cons.prems(1) gi rest by (simp add: zero_run_def)
  qed
qed

lemma zero_run_split:
  assumes "zero_run gs (start, len)"
  shows "gs = take start gs @ replicate len 0 @ drop (start + len) gs"
proof -
  have "take len (drop start gs) = replicate len 0"
    using assms by (intro nth_equalityI) (auto simp: zero_run_def)
  then show ?thesis
    by (metis append_take_drop_id drop_drop add.commute)
qed


section \<open>Round trip\<close>

lemma read_ipv6_mapped:
  assumes "to_ipv4_mapped a = Some v4"
  shows "read_ipv6_addr (''::ffff:'' @ display_ipv4 v4) = Some (a, [])"
proof -
  let ?d = "display_ipv4 v4"
  have v4: "unat a div 2 ^ 32 = 0xFFFF" "unat v4 = unat a mod 2 ^ 32"
    using assms by (auto simp: to_ipv4_mapped_def unat_of_nat split: if_splits)
  have ffff: "''ffff'' = lower_hex 65535" by code_simp
  have head: "read_groups 8 0 (''::ffff:'' @ ?d) = ([], False, ''::ffff:'' @ ?d)"
    by (rule read_groups_stop) simp
  have seven: "(7 :: nat) = Suc 6" and six: "(6 :: nat) = Suc 5" by simp_all
  have e: "group_end (CHR '':'' # ?d)" by (simp add: group_end_def)
  have v: "read_ipv4_addr ?d = Some (v4, [])"
    using read_ipv4_display [of "[]" v4] by (simp add: ends_number_def)
  have "read_groups 7 0 (''ffff'' @ CHR '':'' # ?d) =
      ([65535, unat v4 div 65536, unat v4 mod 65536], True, [])"
    unfolding ffff seven six read_groups.simps
    using read_ipv4_lower_hex [OF e, of 65535] read_hextet_lower_hex [OF _ e, of 65535] v
    by (simp add: read_separator_def read_char_def)
  then have tail: "read_groups 7 0 (''ffff:'' @ ?d) =
      ([65535, unat v4 div 65536, unat v4 mod 65536], True, [])"
    by simp
  have "groups_value (replicate 5 0 @ [65535, unat v4 div 65536, unat v4 mod 65536]) = unat a"
  proof -
    have five: "replicate 5 (0 :: nat) = [0, 0, 0, 0, 0]" by (simp add: numeral_eq_Suc)
    have "groups_value (replicate 5 0 @ [65535, h, l]) = 65535 * 2 ^ 32 + (65536 * h + l)" for h l
      by (simp add: groups_value_def five)
    then have "groups_value (replicate 5 0 @ [65535, unat v4 div 65536, unat v4 mod 65536]) =
        65535 * 2 ^ 32 + unat v4"
      by simp
    also have "\<dots> = unat a"
      unfolding v4(2) v4(1) [symmetric] by simp
    finally show ?thesis .
  qed
  with head tail show ?thesis
    by (simp add: read_ipv6_addr_def del: read_groups.simps)
qed

lemma read_ipv6_display: "read_ipv6_addr (display_ipv6 a) = Some (a, [])"
proof (cases "to_ipv4_mapped a")
  case (Some v4)
  then show ?thesis by (simp add: display_ipv6_def read_ipv6_mapped del: append_Cons)
next
  case None
  obtain start len where run: "zero_runs 0 (segments a) (0, 0) (0, 0) = (start, len)"
    by (cases "zero_runs 0 (segments a) (0, 0) (0, 0)")
  have zr: "zero_run (segments a) (start, len)"
    using zero_runs_zero [of "segments a" "(0, 0)" "(0, 0)" 0 "segments a"] run
    by (simp add: zero_run_def)
  then have le: "start + len \<le> 8" by (simp add: zero_run_def)
  show ?thesis
  proof (cases "len > 1")
    case False
    have "read_groups 8 0 (fmt_subslice (segments a)) = (segments a, False, [])"
      using read_groups_fmt [of "segments a" 8 "[]"] segments_less by (simp add: group_stop_def)
    with False None run show ?thesis
      by (simp add: display_ipv6_def read_ipv6_addr_def groups_value_segments)
  next
    case True
    let ?h = "take start (segments a)" and ?t = "drop (start + len) (segments a)"
    have small: "list_all (\<lambda>g. g < 65536) ?h" "list_all (\<lambda>g. g < 65536) ?t"
      using segments_less [of a] by (auto simp: list_all_iff dest: in_set_takeD in_set_dropD)
    have h: "read_groups 8 0 (fmt_subslice ?h @ ''::'' @ fmt_subslice ?t) =
        (?h, False, ''::'' @ fmt_subslice ?t)"
      using small(1) by (intro read_groups_fmt) (auto simp: group_stop_def)
    have t: "read_groups (8 - (start + 1)) 0 (fmt_subslice ?t) = (?t, False, [])"
      using read_groups_fmt [of ?t "8 - (start + 1)" "[]"] small(2) le True by (simp add: group_stop_def)
    have "segments a = ?h @ replicate len 0 @ ?t" by (rule zero_run_split [OF zr])
    moreover have "8 - start - (8 - (start + len)) = len" using le by simp
    ultimately have "groups_value (?h @ replicate (8 - start - (8 - (start + len))) 0 @ ?t) = unat a"
      by (metis groups_value_segments)
    with True None run h t le show ?thesis
      by (simp add: display_ipv6_def read_ipv6_addr_def min_def)
  qed
qed

text \<open>The dotted and the hexadecimal form are never confused.\<close>

lemma read_ipv4_display_ipv6: "read_ipv4_addr (display_ipv6 a) = None"
proof (cases "to_ipv4_mapped a")
  case (Some v4)
  then show ?thesis by (simp add: display_ipv6_def read_at_colon)
next
  case None
  have fmt: "read_ipv4_addr (fmt_subslice gs @ r) = None" if "group_end r" for gs r
  proof (cases gs)
    case Nil
    with that show ?thesis
      by (cases r) (auto simp: fmt_subslice_def read_at_colon group_end_def)
  next
    case (Cons g gs')
    then show ?thesis
      using read_ipv4_lower_hex [OF group_end_colon_groups [OF that]] by (simp add: fmt_subslice_Cons)
  qed
  from fmt [of "[]"] show ?thesis
    using None by (auto simp: display_ipv6_def fmt group_end_def split: prod.split)
qed

lemma parse_ip_display: "parse_ip (display_ip ip) = Some ip"
proof (cases ip)
  case (V4 a)
  then show ?thesis by (simp add: parse_ip_display_ipv4)
next
  case (V6 a)
  then show ?thesis
    by (simp add: parse_ip_def parse_with_def read_ipv4_display_ipv6 read_ipv6_display)
qed


section \<open>Length and characters of the output\<close>

lemma length_colon_groups: "list_all (\<lambda>g. g < 65536) gs \<Longrightarrow> length (colon_groups gs) \<le> 5 * length gs"
  by (induction gs) (auto simp: colon_groups_def dest: length_lower_hex)

lemma length_fmt_subslice:
  "list_all (\<lambda>g. g < 65536) gs \<Longrightarrow> length (fmt_subslice gs) \<le> 5 * length gs - 1"
proof (cases gs)
  case (Cons g gs')
  then show "list_all (\<lambda>g. g < 65536) gs \<Longrightarrow> ?thesis"
    using length_colon_groups [of gs'] length_lower_hex [of g] by (auto simp: fmt_subslice_Cons)
qed (simp add: fmt_subslice_def)

lemma length_display_ipv4: "length (display_ipv4 a) \<le> 15"
proof -
  have "length (dec_string (octet a i)) \<le> 3" for i
    by (rule length_dec_string_le) (rule less_trans [OF octet_less], simp)
  from this [of 0] this [of 1] this [of 2] this [of 3] show ?thesis
    by (simp add: display_ipv4_def del: dec_string.simps)
qed

lemma length_display_ipv6: "length (display_ipv6 a) \<le> 39"
proof (cases "to_ipv4_mapped a")
  case (Some v4)
  then show ?thesis using length_display_ipv4 [of v4] by (simp add: display_ipv6_def)
next
  case None
  obtain start len where run: "zero_runs 0 (segments a) (0, 0) (0, 0) = (start, len)"
    by (cases "zero_runs 0 (segments a) (0, 0) (0, 0)")
  have le: "start + len \<le> 8"
    using zero_runs_zero [of "segments a" "(0, 0)" "(0, 0)" 0 "segments a"] run
    by (simp add: zero_run_def)
  let ?h = "take start (segments a)" and ?t = "drop (start + len) (segments a)"
  have "list_all (\<lambda>g. g < 65536) ?h" "list_all (\<lambda>g. g < 65536) ?t"
    using segments_less [of a] by (auto simp: list_all_iff dest: in_set_takeD in_set_dropD)
  from length_fmt_subslice [OF this(1)] length_fmt_subslice [OF this(2)]
    length_fmt_subslice [OF segments_less, of a] le
  show ?thesis
    using None run by (auto simp: display_ipv6_def min_def split: if_splits)
qed

lemma no_ws_append [simp]: "no_ws (a @ b) \<longleftrightarrow> no_ws a \<and> no_ws b"
  by (simp add: no_ws_def)

lemma no_ws_dec_string: "no_ws (dec_string n)"
proof -
  have "33 \<le> byte c \<and> byte c < 128" if "is_ascii_digit c" for c
    using that by (auto simp: is_ascii_digit_def byte_in_def)
  then show ?thesis
    using dec_string_digits [of n] by (simp add: no_ws_def list_all_iff del: dec_string.simps)
qed

text \<open>The characters of a printed address.\<close>

definition address_char :: "char \<Rightarrow> bool" where
  "address_char c \<longleftrightarrow> is_ascii_hexdigit c \<or> c = CHR ''.'' \<or> c = CHR '':''"

lemma address_char_join:
  "list_all address_char sep \<Longrightarrow> list_all (list_all address_char) ls \<Longrightarrow>
   list_all address_char (join_with sep ls)"
proof (induction ls)
  case (Cons l ls)
  then show ?case by (cases "ls = []") (auto simp: join_with_Cons)
qed simp

lemma address_char_dec_string: "list_all address_char (dec_string n)"
  using dec_string_digits [of n]
  by (auto simp: list_all_iff address_char_def is_ascii_hexdigit_def simp del: dec_string.simps)

lemma address_char_lower_hex: "list_all address_char (lower_hex n)"
  using lower_hex_digits [of n] by (auto simp: list_all_iff address_char_def)

lemma address_char_display_ipv4: "list_all address_char (display_ipv4 a)"
  unfolding display_ipv4_def
  by (rule address_char_join) (simp_all add: address_char_def address_char_dec_string del: dec_string.simps)

lemma address_char_fmt_subslice: "list_all address_char (fmt_subslice gs)"
  unfolding fmt_subslice_def
  by (rule address_char_join)
    (simp_all add: address_char_def [of "CHR '':''"] address_char_lower_hex list.pred_map list.pred_True o_def)

lemma address_char_display_ip: "list_all address_char (display_ip ip)"
proof (cases ip)
  case (V6 a)
  have "list_all address_char ''::ffff:''" "list_all address_char ''::''" by code_simp+
  then show ?thesis
    unfolding V6 by (auto simp: display_ipv6_def address_char_display_ipv4 address_char_fmt_subslice
        simp del: append_Cons list.pred_inject split: option.split prod.split)
qed (simp add: address_char_display_ipv4)

lemma no_ws_address: "list_all address_char s \<Longrightarrow> no_ws s"
  by (fastforce simp: no_ws_def list_all_iff address_char_def is_ascii_hexdigit_def is_ascii_digit_def
      byte_in_def byte_def)

lemma no_ws_display_ipv4: "no_ws (display_ipv4 a)"
  by (rule no_ws_address [OF address_char_display_ipv4])

lemma no_ws_display_ip: "no_ws (display_ip ip)"
  by (rule no_ws_address [OF address_char_display_ip])

lemma display_ipv4_neq_Nil: "display_ipv4 a \<noteq> []"
  by (simp add: display_ipv4_def)

lemma display_ip_neq_Nil: "display_ip ip \<noteq> []"
proof
  assume "display_ip ip = []"
  moreover have "parse_ip [] = None" by code_simp
  ultimately show False using parse_ip_display [of ip] by simp
qed

end
