(* ===== verification/Proxy_Protocol.thy ===== *)
theory Proxy_Protocol
  imports Net_Display
begin

text \<open>
  The PROXY protocol of \<open>crates/fluxheim-protocol/src/proxy_protocol.rs\<close>: trusted sources, the
  headers of version 1 and 2 that Fluxheim writes to upstreams, and the parsers for the headers it
  accepts from trusted peers; and the trusted-source test of
  \<open>crates/fluxheim-server/src/proxy_protocol.rs\<close>.
\<close>

unbundle bit_operations_syntax

section \<open>Trusted sources\<close>

datatype trusted_source = TrustedIp ip_addr | TrustedCidr ip_addr nat

datatype trusted_source_error = InvalidAddress | InvalidNetwork | InvalidPrefix

fun cidr_network_address_is_canonical :: "ip_addr \<Rightarrow> nat \<Rightarrow> bool" where
  "cidr_network_address_is_canonical (V4 a) pfx =
     (let mask = (if pfx = 0 then 0 else push_bit (32 - pfx) (-1)) in a AND NOT mask = 0)"
| "cidr_network_address_is_canonical (V6 a) pfx =
     (let mask = (if pfx = 0 then 0 else push_bit (128 - pfx) (-1)) in a AND NOT mask = 0)"

fun max_prefix :: "ip_addr \<Rightarrow> nat" where
  "max_prefix (V4 a) = 32"
| "max_prefix (V6 a) = 128"

definition parse_proxy_protocol_trusted_source ::
    "string \<Rightarrow> (trusted_source, trusted_source_error) result" where
  "parse_proxy_protocol_trusted_source value =
     (case split_once (CHR ''/'') value of
        Some (address, pfx) \<Rightarrow>
          and_then (ok_or (parse_ip address) InvalidAddress) (\<lambda>network.
          and_then (ok_or (parse_u8 pfx) InvalidPrefix) (\<lambda>p.
            if p > max_prefix network then Err InvalidPrefix
            else if \<not> cidr_network_address_is_canonical network p then Err InvalidNetwork
            else Ok (TrustedCidr network p)))
      | None \<Rightarrow>
          and_then (ok_or (parse_ip value) InvalidAddress) (\<lambda>ip. Ok (TrustedIp ip)))"

fun normalize_ipv4_mapped_ip :: "ip_addr \<Rightarrow> ip_addr" where
  "normalize_ipv4_mapped_ip (V6 a) = (case to_ipv4_mapped a of Some v4 \<Rightarrow> V4 v4 | None \<Rightarrow> V6 a)"
| "normalize_ipv4_mapped_ip (V4 a) = V4 a"

definition ipv4_prefix_match :: "ipv4 \<Rightarrow> ipv4 \<Rightarrow> nat \<Rightarrow> bool" where
  "ipv4_prefix_match network address pfx =
     (if pfx > 32 then False
      else let mask = (if pfx = 0 then 0 else push_bit (32 - pfx) (-1))
           in network AND mask = address AND mask)"

definition ipv6_prefix_match :: "ipv6 \<Rightarrow> ipv6 \<Rightarrow> nat \<Rightarrow> bool" where
  "ipv6_prefix_match network address pfx =
     (if pfx > 128 then False
      else let mask = (if pfx = 0 then 0 else push_bit (128 - pfx) (-1))
           in network AND mask = address AND mask)"

definition trusted_source_contains :: "trusted_source \<Rightarrow> ip_addr \<Rightarrow> bool" where
  "trusted_source_contains src addr =
     (let address = normalize_ipv4_mapped_ip addr
      in case (src, address) of
           (TrustedIp trusted, address) \<Rightarrow> normalize_ipv4_mapped_ip trusted = address
         | (TrustedCidr (V4 network) pfx, V4 a) \<Rightarrow> ipv4_prefix_match network a pfx
         | (TrustedCidr (V6 network) pfx, V6 a) \<Rightarrow> ipv6_prefix_match network a pfx
         | _ \<Rightarrow> False)"


section \<open>Headers\<close>

definition proxy_unknown :: bytes where
  "proxy_unknown = ''PROXY UNKNOWN'' @ [CR, LF]"

definition proxy_v1_line :: "string \<Rightarrow> string \<Rightarrow> string \<Rightarrow> port \<Rightarrow> port \<Rightarrow> bytes" where
  "proxy_v1_line family src dst sport dport =
     ''PROXY '' @ family @ [SP] @ src @ [SP] @ dst @ [SP] @
     dec_string (unat sport) @ [SP] @ dec_string (unat dport) @ [CR, LF]"

definition proxy_protocol_v1_header :: "socket_addr option \<Rightarrow> socket_addr option \<Rightarrow> bytes" where
  "proxy_protocol_v1_header source destination =
     (case source of
        None \<Rightarrow> proxy_unknown
      | Some src \<Rightarrow>
          (case destination of
             None \<Rightarrow> proxy_unknown
           | Some dst \<Rightarrow>
               (case (sa_ip src, sa_ip dst) of
                  (V4 s, V4 d) \<Rightarrow>
                    proxy_v1_line ''TCP4'' (display_ipv4 s) (display_ipv4 d) (sa_port src) (sa_port dst)
                | (V6 s, V6 d) \<Rightarrow>
                    proxy_v1_line ''TCP6'' (display_ipv6 s) (display_ipv6 d) (sa_port src) (sa_port dst)
                | _ \<Rightarrow> proxy_unknown)))"

definition PROXY_PROTOCOL_V1_MAX_LINE :: nat where "PROXY_PROTOCOL_V1_MAX_LINE = 108"
definition PROXY_PROTOCOL_V2_HEADER_LEN :: nat where "PROXY_PROTOCOL_V2_HEADER_LEN = 16"
definition PROXY_PROTOCOL_V2_MAX_PAYLOAD :: nat where "PROXY_PROTOCOL_V2_MAX_PAYLOAD = 4096"

definition PROXY_PROTOCOL_V2_SIGNATURE :: bytes where
  "PROXY_PROTOCOL_V2_SIGNATURE = [CR, LF, CR, LF, CHR 0x00, CR, LF] @ ''QUIT'' @ [LF]"

definition proxy_v2_local :: bytes where
  "proxy_v2_local = [CHR 0x21, CHR 0x00, CHR 0x00, CHR 0x00]"

definition proxy_protocol_v2_header :: "socket_addr option \<Rightarrow> socket_addr option \<Rightarrow> bytes" where
  "proxy_protocol_v2_header source destination =
     PROXY_PROTOCOL_V2_SIGNATURE @
     (case source of
        None \<Rightarrow> proxy_v2_local
      | Some src \<Rightarrow>
          (case destination of
             None \<Rightarrow> proxy_v2_local
           | Some dst \<Rightarrow>
               (case (sa_ip src, sa_ip dst) of
                  (V4 s, V4 d) \<Rightarrow>
                    [CHR 0x21, CHR 0x11, CHR 0x00, CHR 0x0C] @ octets4 s @ octets4 d @
                    to_be_bytes16 (sa_port src) @ to_be_bytes16 (sa_port dst)
                | (V6 s, V6 d) \<Rightarrow>
                    [CHR 0x21, CHR 0x21, CHR 0x00, CHR 0x24] @ octets6 s @ octets6 d @
                    to_be_bytes16 (sa_port src) @ to_be_bytes16 (sa_port dst)
                | _ \<Rightarrow> proxy_v2_local)))"


section \<open>Parsers\<close>

datatype downstream_proxy_error =
    V1LineTooLong
  | V1NotUtf8
  | V1MissingCrlf
  | V1MissingPrefix
  | V1MissingFamily
  | V1MissingSourceAddress
  | V1MissingDestinationAddress
  | V1MissingSourcePort
  | V1MissingDestinationPort
  | V1UnexpectedFields
  | V1InvalidSourceAddress
  | V1InvalidDestinationAddress
  | V1FamilyAddressMismatch
  | InvalidPort
  | V2InvalidSignature
  | V2InvalidVersion
  | V2InvalidCommand
  | V2InvalidLength
  | V2TruncatedTcp4
  | V2TruncatedTcp6
  | V2InvalidTcp6Source
  | V2UnsupportedAddressFamily

type_synonym 'a proxy_result = "('a, downstream_proxy_error) result"

definition parse_proxy_protocol_port :: "string \<Rightarrow> port proxy_result" where
  "parse_proxy_protocol_port value =
     and_then (ok_or (parse_u16 value) InvalidPort) (\<lambda>p. Ok (of_nat p))"

definition family_matches :: "string \<Rightarrow> ip_addr \<Rightarrow> ip_addr \<Rightarrow> bool" where
  "family_matches family src dst =
     (case (src, dst) of
        (V4 _, V4 _) \<Rightarrow> family = ''TCP4''
      | (V6 _, V6 _) \<Rightarrow> family = ''TCP6''
      | _ \<Rightarrow> False)"

definition parse_v1_addresses ::
    "string \<Rightarrow> string \<Rightarrow> string \<Rightarrow> string \<Rightarrow> string \<Rightarrow> socket_addr option proxy_result" where
  "parse_v1_addresses family source_addr destination_addr source_port destination_port =
     and_then (ok_or (parse_ip source_addr) V1InvalidSourceAddress) (\<lambda>source_ip.
     and_then (ok_or (parse_ip destination_addr) V1InvalidDestinationAddress) (\<lambda>destination_ip.
       if \<not> family_matches family source_ip destination_ip then Err V1FamilyAddressMismatch
       else
         and_then (parse_proxy_protocol_port source_port) (\<lambda>sport.
         and_then (parse_proxy_protocol_port destination_port) (\<lambda>_.
           Ok (Some \<lparr>sa_ip = source_ip, sa_port = sport\<rparr>)))))"

definition parse_v1_fields :: "string list \<Rightarrow> socket_addr option proxy_result" where
  "parse_v1_fields fs =
     (case fs of
        [] \<Rightarrow> Err V1MissingPrefix
      | p # fs1 \<Rightarrow>
          if p \<noteq> ''PROXY'' then Err V1MissingPrefix
          else (case fs1 of
             [] \<Rightarrow> Err V1MissingFamily
           | family # fs2 \<Rightarrow>
               if family = ''UNKNOWN'' then Ok None
               else (case fs2 of
                  [] \<Rightarrow> Err V1MissingSourceAddress
                | [_] \<Rightarrow> Err V1MissingDestinationAddress
                | [_, _] \<Rightarrow> Err V1MissingSourcePort
                | [_, _, _] \<Rightarrow> Err V1MissingDestinationPort
                | [src, dst, sport, dport] \<Rightarrow> parse_v1_addresses family src dst sport dport
                | _ \<Rightarrow> Err V1UnexpectedFields)))"

definition parse_downstream_proxy_protocol_v1 :: "bytes \<Rightarrow> socket_addr option proxy_result" where
  "parse_downstream_proxy_protocol_v1 line =
     (if length line > PROXY_PROTOCOL_V1_MAX_LINE then Err V1LineTooLong
      else if \<not> utf8_valid line then Err V1NotUtf8
      else (case strip_suffix [CR, LF] line of
         None \<Rightarrow> Err V1MissingCrlf
       | Some l \<Rightarrow> parse_v1_fields (split_whitespace l)))"

text \<open>The header is an array of 16 bytes; its indices are in range there.\<close>

definition parse_v2_address :: "nat \<Rightarrow> bytes \<Rightarrow> socket_addr option proxy_result" where
  "parse_v2_address family payload =
     (if family = 0x11 then
        (if length payload < 12 then Err V2TruncatedTcp4
         else Ok (Some \<lparr>sa_ip = V4 (from_octets4 (take 4 payload)),
                        sa_port = from_be_bytes16 [payload ! 8, payload ! 9]\<rparr>))
      else if family = 0x21 then
        (if length payload < 36 then Err V2TruncatedTcp6
         else Ok (Some \<lparr>sa_ip = V6 (from_octets6 (take 16 payload)),
                        sa_port = from_be_bytes16 [payload ! 32, payload ! 33]\<rparr>))
      else if family = 0 then Ok None
      else Err V2UnsupportedAddressFamily)"

definition parse_downstream_proxy_protocol_v2 :: "bytes \<Rightarrow> bytes \<Rightarrow> socket_addr option proxy_result" where
  "parse_downstream_proxy_protocol_v2 header payload =
     (let declared_length = unat (from_be_bytes16 [header ! 14, header ! 15])
      in if declared_length > PROXY_PROTOCOL_V2_MAX_PAYLOAD \<or> length payload \<noteq> declared_length
         then Err V2InvalidLength
         else if take (length PROXY_PROTOCOL_V2_SIGNATURE) header \<noteq> PROXY_PROTOCOL_V2_SIGNATURE
         then Err V2InvalidSignature
         else if byte (header ! 12) div 16 \<noteq> 2 then Err V2InvalidVersion
         else if byte (header ! 12) mod 16 = 0 then Ok None
         else if byte (header ! 12) mod 16 \<noteq> 1 then Err V2InvalidCommand
         else parse_v2_address (byte (header ! 13)) payload)"

end
