(* ===== verification/Stream_Proxy.thy ===== *)
theory Stream_Proxy
  imports Proxy_Protocol
begin

text \<open>
  The TCP stream proxy of \<open>crates/fluxheim-stream/src/lib.rs\<close> and \<open>copy.rs\<close>: source policies, the
  filter for resolved upstream addresses, reading the PROXY header of a trusted peer from the
  connection, and the byte copying of one direction.

  A connection to read from is the list of segments that will arrive; a read with a buffer of \<open>n\<close>
  bytes takes at most \<open>n\<close> bytes of the first segment, and the end of the list is the end of the
  stream. A failing read is a segment of its own. Timers are the runtime's: a header timeout is a
  Boolean argument.
\<close>

unbundle bit_operations_syntax

section \<open>Errors\<close>

datatype io_kind =
    Interrupted | TimedOut | InvalidInputKind | InvalidData | PermissionDenied | WriteZero
  | ConnectionRefused | ConnectionReset | ConnectionAborted | AddrNotAvailable | AddrInUse
  | HostUnreachable | NetworkUnreachable | NotConnected | OtherKind

datatype flux_error =
    Io string io_kind
  | InvalidInput string
  | InvalidInputMessage
  | Timeout string string
  | WriteProxyHeader io_kind

type_synonym 'a flux_result = "('a, flux_error) result"

definition flux_io_kind :: "flux_error \<Rightarrow> io_kind option" where
  "flux_io_kind e =
     (case e of
        Io _ k \<Rightarrow> Some k
      | WriteProxyHeader k \<Rightarrow> Some k
      | _ \<Rightarrow> None)"

definition stream_error_kind :: "flux_error \<Rightarrow> io_kind" where
  "stream_error_kind e =
     (case e of
        Io _ k \<Rightarrow> k
      | WriteProxyHeader k \<Rightarrow> k
      | Timeout _ _ \<Rightarrow> TimedOut
      | InvalidInput _ \<Rightarrow> InvalidInputKind
      | InvalidInputMessage \<Rightarrow> InvalidInputKind)"

definition stream_error_outcome :: "flux_error \<Rightarrow> string" where
  "stream_error_outcome e =
     (case stream_error_kind e of
        Interrupted \<Rightarrow> ''shutdown''
      | TimedOut \<Rightarrow> ''timeout''
      | ConnectionRefused \<Rightarrow> ''connect_error''
      | ConnectionReset \<Rightarrow> ''connect_error''
      | ConnectionAborted \<Rightarrow> ''connect_error''
      | AddrNotAvailable \<Rightarrow> ''connect_error''
      | AddrInUse \<Rightarrow> ''connect_error''
      | HostUnreachable \<Rightarrow> ''connect_error''
      | NetworkUnreachable \<Rightarrow> ''connect_error''
      | NotConnected \<Rightarrow> ''connect_error''
      | _ \<Rightarrow> ''error'')"

fun as_static_str :: "downstream_proxy_error \<Rightarrow> string" where
  "as_static_str V1LineTooLong = ''stream downstream PROXY v1 header exceeds 108 bytes''"
| "as_static_str V1NotUtf8 = ''stream downstream PROXY v1 header is not UTF-8''"
| "as_static_str V1MissingCrlf = ''stream downstream PROXY v1 header is missing CRLF''"
| "as_static_str V1MissingPrefix = ''stream downstream PROXY v1 header is missing prefix''"
| "as_static_str V1MissingFamily = ''stream downstream PROXY v1 header is missing family''"
| "as_static_str V1MissingSourceAddress = ''stream downstream PROXY v1 header is missing source address''"
| "as_static_str V1MissingDestinationAddress =
     ''stream downstream PROXY v1 header is missing destination address''"
| "as_static_str V1MissingSourcePort = ''stream downstream PROXY v1 header is missing source port''"
| "as_static_str V1MissingDestinationPort =
     ''stream downstream PROXY v1 header is missing destination port''"
| "as_static_str V1UnexpectedFields = ''stream downstream PROXY v1 header has unexpected fields''"
| "as_static_str V1InvalidSourceAddress = ''stream downstream PROXY v1 source address is invalid''"
| "as_static_str V1InvalidDestinationAddress =
     ''stream downstream PROXY v1 destination address is invalid''"
| "as_static_str V1FamilyAddressMismatch =
     ''stream downstream PROXY v1 family does not match address types''"
| "as_static_str InvalidPort = ''stream downstream PROXY port is invalid''"
| "as_static_str V2InvalidVersion = ''stream downstream PROXY v2 header has invalid version''"
| "as_static_str V2InvalidSignature = ''stream downstream PROXY v2 header has invalid signature''"
| "as_static_str V2InvalidCommand = ''stream downstream PROXY v2 header has invalid command''"
| "as_static_str V2InvalidLength =
     ''stream downstream PROXY v2 payload length does not match its header''"
| "as_static_str V2TruncatedTcp4 = ''stream downstream PROXY v2 TCP4 address is truncated''"
| "as_static_str V2TruncatedTcp6 = ''stream downstream PROXY v2 TCP6 address is truncated''"
| "as_static_str V2InvalidTcp6Source = ''stream downstream PROXY v2 TCP6 source is invalid''"
| "as_static_str V2UnsupportedAddressFamily =
     ''stream downstream PROXY v2 address family is unsupported''"

definition proxy_protocol_parse_error :: "downstream_proxy_error \<Rightarrow> flux_error" where
  "proxy_protocol_parse_error e = InvalidInput (as_static_str e)"


section \<open>Source policies\<close>

datatype stream_source_matcher = MatchIp ip_addr | MatchCidr ip_addr nat

definition prefix_mask :: "nat \<Rightarrow> nat \<Rightarrow> 128 word" where
  "prefix_mask pfx bits = (if pfx = 0 then 0 else push_bit (bits - pfx) (-1))"

fun ip_in_prefix :: "ip_addr \<Rightarrow> ip_addr \<Rightarrow> nat \<Rightarrow> bool" where
  "ip_in_prefix (V4 address) (V4 network) pfx =
     (let mask = (ucast (prefix_mask pfx 32) :: 32 word) in address AND mask = network AND mask)"
| "ip_in_prefix (V6 address) (V6 network) pfx =
     (let mask = prefix_mask pfx 128 in address AND mask = network AND mask)"
| "ip_in_prefix _ _ pfx = False"

definition matcher_parse :: "string \<Rightarrow> stream_source_matcher flux_result" where
  "matcher_parse value =
     (case split_once (CHR ''/'') value of
        Some (address, pfx) \<Rightarrow>
          and_then (ok_or (parse_ip address) InvalidInputMessage) (\<lambda>network.
          and_then (ok_or (parse_u8 pfx) InvalidInputMessage) (\<lambda>p.
            if p > max_prefix network then Err InvalidInputMessage
            else Ok (MatchCidr network p)))
      | None \<Rightarrow> and_then (ok_or (parse_ip value) InvalidInputMessage) (\<lambda>ip. Ok (MatchIp ip)))"

fun matcher_matches :: "stream_source_matcher \<Rightarrow> ip_addr \<Rightarrow> bool" where
  "matcher_matches (MatchIp trusted) address = (trusted = address)"
| "matcher_matches (MatchCidr network pfx) address = ip_in_prefix address network pfx"

fun parse_stream_source_matchers :: "string list \<Rightarrow> stream_source_matcher list flux_result" where
  "parse_stream_source_matchers [] = Ok []"
| "parse_stream_source_matchers (v # vs) =
     and_then (matcher_parse v) (\<lambda>m.
     and_then (parse_stream_source_matchers vs) (\<lambda>ms. Ok (m # ms)))"

datatype proxy_protocol = Off | V1 | V2

record stream_route =
  sr_upstream :: "string option"
  sr_upstreams :: "string list"
  sr_upstream_weights :: "nat list"
  sr_upstream_aliases :: "string list"
  sr_backup_upstreams :: "string list"
  sr_drain_upstreams :: "string list"
  sr_downstream_proxy_protocol :: proxy_protocol
  sr_trusted_proxies :: "string list"
  sr_allow_sources :: "string list"
  sr_deny_sources :: "string list"

record stream_source_policy =
  sp_allow :: "stream_source_matcher list"
  sp_deny :: "stream_source_matcher list"

definition policy_from_route :: "stream_route \<Rightarrow> stream_source_policy flux_result" where
  "policy_from_route route =
     and_then (parse_stream_source_matchers (sr_allow_sources route)) (\<lambda>allow.
     and_then (parse_stream_source_matchers (sr_deny_sources route)) (\<lambda>deny.
       Ok \<lparr>sp_allow = allow, sp_deny = deny\<rparr>))"

definition source_allowed :: "stream_source_policy \<Rightarrow> socket_addr option \<Rightarrow> bool" where
  "source_allowed p source =
     (case source of
        None \<Rightarrow> sp_allow p = []
      | Some src \<Rightarrow>
          if list_ex (\<lambda>m. matcher_matches m (sa_ip src)) (sp_deny p) then False
          else sp_allow p = [] \<or> list_ex (\<lambda>m. matcher_matches m (sa_ip src)) (sp_allow p))"

definition parse_stream_trusted_sources :: "stream_route \<Rightarrow> stream_source_matcher list flux_result" where
  "parse_stream_trusted_sources route =
     (if sr_downstream_proxy_protocol route = Off then Ok []
      else parse_stream_source_matchers (sr_trusted_proxies route))"


section \<open>Resolved upstream addresses\<close>

definition stream_dns_resolved_ipv4_address_allowed :: "ipv4 \<Rightarrow> bool" where
  "stream_dns_resolved_ipv4_address_allowed a =
     (let first = octet a 0; second = octet a 1; third = octet a 2; fourth = octet a 3;
          is_unspecified = (first = 0 \<and> second = 0 \<and> third = 0 \<and> fourth = 0);
          is_loopback = (first = 127);
          is_private = (first = 10 \<or> (first = 172 \<and> 16 \<le> second \<and> second \<le> 31) \<or>
                        (first = 192 \<and> second = 168));
          is_link_local = (first = 169 \<and> second = 254);
          is_multicast = (224 \<le> first \<and> first \<le> 239);
          is_broadcast = (first = 255 \<and> second = 255 \<and> third = 255 \<and> fourth = 255);
          is_documentation = ((first = 192 \<and> second = 0 \<and> third = 2) \<or>
                              (first = 198 \<and> second = 51 \<and> third = 100) \<or>
                              (first = 203 \<and> second = 0 \<and> third = 113));
          ietf_protocol_assignment =
            (first = 192 \<and> second = 0 \<and> third = 0 \<and> \<not> (fourth = 9 \<or> fourth = 10))
      in \<not> (is_unspecified \<or> is_loopback \<or> is_private \<or> is_link_local \<or> is_multicast \<or>
            is_broadcast \<or> is_documentation \<or> ietf_protocol_assignment \<or>
            first \<ge> 240 \<or> first = 0 \<or> (first = 100 \<and> 64 \<le> second \<and> second \<le> 127) \<or>
            (first = 198 \<and> (second = 18 \<or> second = 19))))"

text \<open>\<open>Ipv6Addr::to_ipv4\<close>: IPv4-compatible and IPv4-mapped addresses.\<close>

definition to_ipv4 :: "ipv6 \<Rightarrow> ipv4 option" where
  "to_ipv4 a =
     (if unat a div 2 ^ 32 = 0 \<or> unat a div 2 ^ 32 = 0xFFFF
      then Some (of_nat (unat a mod 2 ^ 32)) else None)"

definition special_or_transition :: "ipv6 \<Rightarrow> bool" where
  "special_or_transition a \<longleftrightarrow>
     (segment a 0 = 0x0064 \<and> segment a 1 = 0xFF9B \<and> list_all (\<lambda>i. segment a i = 0) [2, 3, 4, 5]) \<or>
     (segment a 0 = 0x0064 \<and> segment a 1 = 0xFF9B \<and> segment a 2 = 1) \<or>
     (segment a 0 = 0x0100 \<and> segment a 1 = 0 \<and> segment a 2 = 0 \<and>
        (segment a 3 = 0 \<or> segment a 3 = 1)) \<or>
     (segment a 0 = 0x2001 \<and> segment a 1 < 0x0200) \<or>
     segment a 0 = 0x2002 \<or>
     (segment a 0 = 0x3FFF \<and> (segment a 1 AND 0xF000) = 0) \<or>
     segment a 0 = 0x5F00 \<or>
     (segment a 0 AND 0xFFC0) = 0xFEC0"

definition stream_dns_resolved_ipv6_address_allowed :: "ipv6 \<Rightarrow> bool" where
  "stream_dns_resolved_ipv6_address_allowed a =
     (case to_ipv4 a of
        Some v4 \<Rightarrow> stream_dns_resolved_ipv4_address_allowed v4
      | None \<Rightarrow>
          \<not> (a = 0 \<or> a = 1 \<or> (segment a 0 AND 0xFF00) = 0xFF00 \<or>
             (segment a 0 AND 0xFE00) = 0xFC00 \<or> (segment a 0 AND 0xFFC0) = 0xFE80 \<or>
             (segment a 0 = 0x2001 \<and> segment a 1 = 0x0DB8))
          \<and> \<not> special_or_transition a)"

fun stream_dns_resolved_address_allowed :: "ip_addr \<Rightarrow> bool" where
  "stream_dns_resolved_address_allowed (V4 a) = stream_dns_resolved_ipv4_address_allowed a"
| "stream_dns_resolved_address_allowed (V6 a) = stream_dns_resolved_ipv6_address_allowed a"

end
