(* ===== verification/Stream_IO.thy ===== *)
theory Stream_IO
  imports Stream_Proxy
begin

text \<open>
  The connection handling of the stream proxy: reading a PROXY header from segments as they arrive
  (\<open>crates/fluxheim-stream/src/lib.rs\<close>) and copying one direction of a connection
  (\<open>crates/fluxheim-stream/src/copy.rs\<close>).
\<close>

section \<open>Reading\<close>

datatype net_event = Data bytes | ReadFailed io_kind

fun net_read :: "nat \<Rightarrow> net_event list \<Rightarrow> (bytes, io_kind) result \<times> net_event list" where
  "net_read n [] = (Ok [], [])"
| "net_read n (ReadFailed k # evs) = (Err k, evs)"
| "net_read n (Data bs # evs) =
     (if bs = [] then net_read n evs
      else (Ok (take n bs), if drop n bs = [] then evs else Data (drop n bs) # evs))"

function read_v1_loop :: "bytes \<Rightarrow> net_event list \<Rightarrow> bytes flux_result \<times> net_event list" where
  "read_v1_loop line evs =
     (case net_read 1 evs of
        (Err k, evs') \<Rightarrow> (Err (Io ''read stream PROXY header'' k), evs')
      | (Ok [], evs') \<Rightarrow>
          (Err (InvalidInput ''stream downstream PROXY protocol v1 header ended early''), evs')
      | (Ok (b # _), evs') \<Rightarrow>
          let line' = line @ [b]
          in if b = LF then (Ok line', evs')
             else if length line' \<ge> PROXY_PROTOCOL_V1_MAX_LINE
             then (Err (InvalidInput ''stream downstream PROXY protocol v1 header exceeds size limit''), evs')
             else read_v1_loop line' evs')"
  by pat_completeness auto
termination
  by (relation "measure (\<lambda>(line, evs). PROXY_PROTOCOL_V1_MAX_LINE - length line)") auto

declare read_v1_loop.simps [simp del]

definition read_downstream_proxy_protocol_v1 ::
    "net_event list \<Rightarrow> socket_addr option flux_result \<times> net_event list" where
  "read_downstream_proxy_protocol_v1 evs =
     (case read_v1_loop [] evs of
        (Err e, evs') \<Rightarrow> (Err e, evs')
      | (Ok line, evs') \<Rightarrow>
          (map_err proxy_protocol_parse_error (parse_downstream_proxy_protocol_v1 line), evs'))"

text \<open>\<open>read_exact_proxy_header\<close> fills a buffer of \<open>len\<close> bytes; \<open>buf\<close> is what it holds so far.\<close>

function read_exact_proxy_header :: "nat \<Rightarrow> bytes \<Rightarrow> net_event list \<Rightarrow> bytes flux_result \<times> net_event list" where
  "read_exact_proxy_header len buf evs =
     (if length buf < len then
        (case net_read (len - length buf) evs of
           (Err k, evs') \<Rightarrow> (Err (Io ''read stream PROXY header'' k), evs')
         | (Ok bs, evs') \<Rightarrow>
             if bs = []
             then (Err (InvalidInput ''stream downstream PROXY protocol header ended early''), evs')
             else (case checked_add (length buf) (length bs) of
                None \<Rightarrow> (Err (InvalidInput ''stream downstream PROXY protocol read offset overflowed''), evs')
              | Some offset \<Rightarrow> read_exact_proxy_header len (buf @ bs) evs'))
      else (Ok buf, evs))"
  by pat_completeness auto
termination
  by (relation "measure (\<lambda>(len, buf, evs). len - length buf)") (auto simp: diff_less_mono2)

declare read_exact_proxy_header.simps [simp del]

definition read_downstream_proxy_protocol_v2 ::
    "net_event list \<Rightarrow> socket_addr option flux_result \<times> net_event list" where
  "read_downstream_proxy_protocol_v2 evs =
     (case read_exact_proxy_header PROXY_PROTOCOL_V2_HEADER_LEN [] evs of
        (Err e, evs1) \<Rightarrow> (Err e, evs1)
      | (Ok header, evs1) \<Rightarrow>
          if take (length PROXY_PROTOCOL_V2_SIGNATURE) header \<noteq> PROXY_PROTOCOL_V2_SIGNATURE
          then (Err (InvalidInput ''stream downstream PROXY v2 header has invalid signature''), evs1)
          else
            let payload_len = unat (from_be_bytes16 [header ! 14, header ! 15])
            in if payload_len > PROXY_PROTOCOL_V2_MAX_PAYLOAD
               then (Err (InvalidInput ''stream downstream PROXY v2 payload exceeds size limit''), evs1)
               else
                 (case (if payload_len > 0 then read_exact_proxy_header payload_len [] evs1 else (Ok [], evs1)) of
                    (Err e, evs2) \<Rightarrow> (Err e, evs2)
                  | (Ok payload, evs2) \<Rightarrow>
                      (map_err proxy_protocol_parse_error
                         (parse_downstream_proxy_protocol_v2 header payload), evs2)))"

definition apply_downstream_proxy_protocol_to_stream ::
    "proxy_protocol \<Rightarrow> stream_source_matcher list \<Rightarrow> socket_addr option \<Rightarrow> bool \<Rightarrow> net_event list \<Rightarrow>
     socket_addr option flux_result \<times> net_event list" where
  "apply_downstream_proxy_protocol_to_stream protocol trusted_sources direct_source timed_out evs =
     (if protocol = Off then (Ok direct_source, evs)
      else (case direct_source of
         None \<Rightarrow>
           (Err (InvalidInput ''stream downstream PROXY protocol requires a TCP peer address''), evs)
       | Some direct \<Rightarrow>
           if \<not> list_ex (\<lambda>m. matcher_matches m (sa_ip direct)) trusted_sources
           then (Err (InvalidInput ''stream downstream PROXY protocol peer is not trusted''), evs)
           else
             let r = (case protocol of
                        Off \<Rightarrow> (Ok (Some direct), evs)
                      | V1 \<Rightarrow> read_downstream_proxy_protocol_v1 evs
                      | V2 \<Rightarrow> read_downstream_proxy_protocol_v2 evs)
             in if timed_out
                then (Err (Timeout ''stream PROXY header timeout''
                        ''complete PROXY header was not received before the deadline''), snd r)
                else r))"

definition write_upstream_proxy_protocol ::
    "proxy_protocol \<Rightarrow> socket_addr option \<Rightarrow> socket_addr option \<Rightarrow> bytes" where
  "write_upstream_proxy_protocol protocol source destination =
     (case protocol of
        Off \<Rightarrow> []
      | V1 \<Rightarrow> proxy_protocol_v1_header source destination
      | V2 \<Rightarrow> proxy_protocol_v2_header source destination)"


section \<open>Copying one direction\<close>

definition STREAM_COPY_BUFFER_BYTES :: nat where
  "STREAM_COPY_BUFFER_BYTES = 16 * 1024"

definition copy_buffer_new :: bytes where
  "copy_buffer_new = replicate STREAM_COPY_BUFFER_BYTES (CHR 0x00)"

definition clear_range :: "bytes \<Rightarrow> nat \<Rightarrow> nat \<Rightarrow> bytes" where
  "clear_range buf start stop = take start buf @ replicate (stop - start) (CHR 0x00) @ drop stop buf"

definition checked_stream_byte_count :: "nat \<Rightarrow> nat \<Rightarrow> nat option \<Rightarrow> nat flux_result" where
  "checked_stream_byte_count current additional max_connection_bytes =
     (case checked_add current additional of
        None \<Rightarrow> Err (Io ''count stream bytes'' InvalidData)
      | Some n \<Rightarrow>
          if (case max_connection_bytes of None \<Rightarrow> False | Some limit \<Rightarrow> n > limit)
          then Err (Io ''enforce stream byte limit'' PermissionDenied)
          else Ok n)"

text \<open>
  The writer answers each write with the number of bytes it took, or fails. A writer that gives no
  further answer leaves the copy blocked, which is the outcome \<open>None\<close>.
\<close>

datatype write_event = Wrote nat | WriteFailed io_kind

record copy_state =
  cp_buffer :: bytes
  cp_out :: bytes
  cp_writes :: "write_event list"

fun write_loop :: "nat \<Rightarrow> nat \<Rightarrow> copy_state \<Rightarrow> write_event list \<Rightarrow> unit flux_result option \<times> copy_state" where
  "write_loop len offset st [] = (if offset < len then None else Some (Ok ()), st\<lparr>cp_writes := []\<rparr>)"
| "write_loop len offset st (w # ws) =
     (if \<not> offset < len then (Some (Ok ()), st\<lparr>cp_writes := w # ws\<rparr>)
      else (case w of
         WriteFailed k \<Rightarrow> (Some (Err (Io ''write stream'' k)), st\<lparr>cp_writes := ws\<rparr>)
       | Wrote written \<Rightarrow>
           if written = 0 then (Some (Err (Io ''write stream'' WriteZero)), st\<lparr>cp_writes := ws\<rparr>)
           else (case checked_add offset written of
              None \<Rightarrow> (Some (Err (InvalidInput ''stream write offset overflowed'')), st\<lparr>cp_writes := ws\<rparr>)
            | Some stop \<Rightarrow>
                if stop > len
                then (Some (Err (InvalidInput ''stream writer reported more bytes than requested'')),
                      st\<lparr>cp_writes := ws\<rparr>)
                else write_loop len stop
                       (st\<lparr>cp_out := cp_out st @ take written (drop offset (cp_buffer st)),
                           cp_buffer := clear_range (cp_buffer st) offset stop\<rparr>) ws)))"

fun events_size :: "net_event list \<Rightarrow> nat" where
  "events_size [] = 0"
| "events_size (Data bs # evs) = Suc (length bs + events_size evs)"
| "events_size (ReadFailed k # evs) = Suc (events_size evs)"

lemma net_read_size:
  "net_read n evs = (Ok bs, evs') \<Longrightarrow> bs \<noteq> [] \<Longrightarrow> 0 < n \<Longrightarrow> events_size evs' < events_size evs"
  by (induction n evs rule: net_read.induct) (auto split: if_splits)

function copy_direction ::
    "nat option \<Rightarrow> (unit, io_kind) result \<Rightarrow> nat \<Rightarrow> copy_state \<Rightarrow> net_event list \<Rightarrow>
     nat flux_result option \<times> copy_state" where
  "copy_direction max_connection_bytes shutdown copied st evs =
     (case net_read STREAM_COPY_BUFFER_BYTES evs of
        (Err k, evs') \<Rightarrow> (Some (Err (Io ''read stream'' k)), st)
      | (Ok bs, evs') \<Rightarrow>
          if bs = []
          then (case shutdown of
             Err k \<Rightarrow> (Some (Err (Io ''shutdown stream'' k)), st)
           | Ok _ \<Rightarrow> (Some (Ok copied), st))
          else (case checked_stream_byte_count copied (length bs) max_connection_bytes of
             Err e \<Rightarrow> (Some (Err e), st\<lparr>cp_buffer := bs @ drop (length bs) (cp_buffer st)\<rparr>)
           | Ok copied' \<Rightarrow>
               (case write_loop (length bs) 0
                       (st\<lparr>cp_buffer := bs @ drop (length bs) (cp_buffer st)\<rparr>) (cp_writes st) of
                  (None, st') \<Rightarrow> (None, st')
                | (Some (Err e), st') \<Rightarrow> (Some (Err e), st')
                | (Some (Ok _), st') \<Rightarrow>
                    copy_direction max_connection_bytes shutdown copied' st' evs')))"
  by pat_completeness auto
termination
  by (relation "measure (\<lambda>(_, _, _, _, evs). events_size evs)")
    (auto simp: STREAM_COPY_BUFFER_BYTES_def intro: net_read_size [OF sym])

declare copy_direction.simps [simp del]


section \<open>Segments do not matter\<close>

fun event_bytes :: "net_event \<Rightarrow> bytes" where
  "event_bytes (Data bs) = bs"
| "event_bytes (ReadFailed k) = []"

definition stream_bytes :: "net_event list \<Rightarrow> bytes" where
  "stream_bytes evs = concat (map event_bytes evs)"

fun is_data :: "net_event \<Rightarrow> bool" where
  "is_data (Data bs) = True"
| "is_data (ReadFailed k) = False"

lemma stream_bytes_simps [simp]:
  "stream_bytes [] = []" "stream_bytes (e # evs) = event_bytes e @ stream_bytes evs"
  by (simp_all add: stream_bytes_def)

lemma net_read_data:
  assumes "list_all is_data evs" and "0 < n"
  shows "\<exists>bs evs'. net_read n evs = (Ok bs, evs') \<and> list_all is_data evs' \<and>
    stream_bytes evs = bs @ stream_bytes evs' \<and> length bs \<le> n \<and> (bs = [] \<longrightarrow> stream_bytes evs = [])"
  using assms by (induction n evs rule: net_read.induct) auto

lemma net_read_one:
  assumes "list_all is_data evs"
  shows "stream_bytes evs = [] \<and> (\<exists>evs'. net_read 1 evs = (Ok [], evs')) \<or>
    (\<exists>b evs'. net_read 1 evs = (Ok [b], evs') \<and> list_all is_data evs' \<and> stream_bytes evs = b # stream_bytes evs')"
proof -
  from net_read_data [OF assms, of 1] obtain bs evs' where r: "net_read 1 evs = (Ok bs, evs')"
    "list_all is_data evs'" "stream_bytes evs = bs @ stream_bytes evs'" "length bs \<le> 1"
    "bs = [] \<longrightarrow> stream_bytes evs = []"
    by auto
  then show ?thesis by (cases bs) auto
qed

text \<open>A line of at most \<open>PROXY_PROTOCOL_V1_MAX_LINE\<close> bytes is read up to its line feed and no further.\<close>

lemma read_v1_loop_line:
  assumes "list_all is_data evs" and "stream_bytes evs = l @ LF # rest" and "LF \<notin> set l"
    and "length pre + length l < PROXY_PROTOCOL_V1_MAX_LINE"
  shows "\<exists>evs'. read_v1_loop pre evs = (Ok (pre @ l @ [LF]), evs') \<and> list_all is_data evs' \<and>
    stream_bytes evs' = rest"
  using assms
proof (induction l arbitrary: pre evs)
  case Nil
  then obtain evs' where "net_read 1 evs = (Ok [LF], evs')" "list_all is_data evs'" "stream_bytes evs' = rest"
    using net_read_one [of evs] by auto
  then show ?case by (subst read_v1_loop.simps) simp
next
  case (Cons c l)
  then obtain evs' where r: "net_read 1 evs = (Ok [c], evs')" "list_all is_data evs'"
      "stream_bytes evs' = l @ LF # rest"
    using net_read_one [of evs] by auto
  from Cons.IH [OF r(2,3), of "pre @ [c]"] Cons.prems(3,4)
  obtain evs'' where "read_v1_loop (pre @ [c]) evs' = (Ok (pre @ c # l @ [LF]), evs'')"
      "list_all is_data evs''" "stream_bytes evs'' = rest"
    by auto
  with r(1) Cons.prems(3,4) show ?case by (subst read_v1_loop.simps) auto
qed

lemma read_exact_data:
  assumes "list_all is_data evs" and "stream_bytes evs = d @ rest" and "length buf + length d = len"
    and "len \<le> u64_max"
  shows "\<exists>evs'. read_exact_proxy_header len buf evs = (Ok (buf @ d), evs') \<and> list_all is_data evs' \<and>
    stream_bytes evs' = rest"
  using assms(1-3)
proof (induction "length d" arbitrary: buf d evs rule: less_induct)
  case less
  show ?case
  proof (cases "d = []")
    case True
    with less.prems show ?thesis by (subst read_exact_proxy_header.simps) auto
  next
    case False
    with less.prems(3) have pos: "0 < len - length buf" "length buf < len" by auto
    from net_read_data [OF less.prems(1) pos(1)] obtain bs evs' where
      r: "net_read (len - length buf) evs = (Ok bs, evs')" "list_all is_data evs'"
        "stream_bytes evs = bs @ stream_bytes evs'" "length bs \<le> len - length buf"
        "bs = [] \<longrightarrow> stream_bytes evs = []"
      by auto
    with False less.prems(2) have ne: "bs \<noteq> []" by auto
    have "bs @ stream_bytes evs' = d @ rest" using r(3) less.prems(2) by simp
    moreover have "length bs \<le> length d" using r(4) less.prems(3) by simp
    ultimately obtain d' where d: "d = bs @ d'" "stream_bytes evs' = d' @ rest"
      by (metis append_eq_append_conv_if append_take_drop_id)
    have "checked_add (length buf) (length bs) = Some (length buf + length bs)"
      using less.prems(3) assms(4) d(1) by (simp add: checked_add_def)
    moreover obtain evs'' where "read_exact_proxy_header len (buf @ bs) evs' = (Ok (buf @ bs @ d'), evs'')"
        "list_all is_data evs''" "stream_bytes evs'' = rest"
      using less.hyps [of d' evs' "buf @ bs"] ne d less.prems(3) r(2) by auto
    ultimately show ?thesis
      using r(1) ne pos d(1) by (subst read_exact_proxy_header.simps) simp
  qed
qed

end
