(* ===== verification/Proxy_Protocol_Props.thy ===== *)
theory Proxy_Protocol_Props
  imports Proxy_Protocol
begin

text \<open>
  Properties of the PROXY protocol: both header versions round trip through the parsers, and a
  trusted network contains exactly the addresses of its range.
\<close>

unbundle bit_operations_syntax

section \<open>Round trips\<close>

definition announced :: "socket_addr option \<Rightarrow> socket_addr option \<Rightarrow> socket_addr option" where
  "announced source destination =
     (case (source, destination) of
        (Some src, Some dst) \<Rightarrow>
          (case (sa_ip src, sa_ip dst) of
             (V4 _, V4 _) \<Rightarrow> Some src
           | (V6 _, V6 _) \<Rightarrow> Some src
           | _ \<Rightarrow> None)
      | _ \<Rightarrow> None)"

lemma v2_local_parse:
  "parse_downstream_proxy_protocol_v2 (PROXY_PROTOCOL_V2_SIGNATURE @ proxy_v2_local) [] = Ok None"
  by code_simp

lemma v2_signature_length: "length PROXY_PROTOCOL_V2_SIGNATURE = 12"
  by (simp add: PROXY_PROTOCOL_V2_SIGNATURE_def)

lemma v2_parse_proxied:
  assumes "length payload = byte l" and "byte f \<noteq> 0"
  shows "parse_downstream_proxy_protocol_v2 (PROXY_PROTOCOL_V2_SIGNATURE @ [CHR 0x21, f, CHR 0x00, l]) payload =
    parse_v2_address (byte f) payload"
proof -
  let ?h = "PROXY_PROTOCOL_V2_SIGNATURE @ [CHR 0x21, f, CHR 0x00, l]"
  have nth: "?h ! 12 = CHR 0x21" "?h ! 13 = f" "?h ! 14 = CHR 0x00" "?h ! 15 = l"
    by (simp_all add: nth_append v2_signature_length)
  have "be_value [CHR 0x00, l] = byte l"
    using be_value_snoc [of "[CHR 0x00]" l] be_value_snoc [of "[]" "CHR 0x00"] by (simp add: byte_def)
  moreover have "byte l < 65536" using byte_less_256 [of l] by linarith
  ultimately have len: "unat (from_be_bytes16 [CHR 0x00, l]) = byte l"
    by (simp add: from_be_bytes16_def unat_of_nat take_bit_nat_def)
  have "byte l \<le> 4096" using byte_less_256 [of l] by linarith
  then show ?thesis
    unfolding parse_downstream_proxy_protocol_v2_def nth len
    using assms by (simp add: PROXY_PROTOCOL_V2_MAX_PAYLOAD_def byte_def)
qed

lemma nth_at: "length a = n \<Longrightarrow> (a @ x # b) ! n = x"
  by auto

lemma two_bytes: "length b = 2 \<Longrightarrow> [b ! 0, b ! Suc 0] = b"
  by (cases b; cases "tl b") auto

lemma v2_address_parts:
  assumes "length ports = 2" and "length a = n" and "length b = n"
  shows "[(a @ b @ ports @ rest) ! (2 * n), (a @ b @ ports @ rest) ! Suc (2 * n)] = ports"
proof -
  have "(a @ b @ ports @ rest) ! (2 * n + i) = ports ! i" if "i < 2" for i
    using assms that by (simp add: nth_append mult_2)
  from this [of 0] this [of 1] two_bytes [OF assms(1)] show ?thesis by simp
qed

lemma proxy_v2_parse_header:
  "parse_downstream_proxy_protocol_v2
     (take PROXY_PROTOCOL_V2_HEADER_LEN (proxy_protocol_v2_header source destination))
     (drop PROXY_PROTOCOL_V2_HEADER_LEN (proxy_protocol_v2_header source destination)) =
   Ok (announced source destination)"
proof -
  have split: "take 16 (PROXY_PROTOCOL_V2_SIGNATURE @ [a, b, c, d] @ p) = PROXY_PROTOCOL_V2_SIGNATURE @ [a, b, c, d]"
    "drop 16 (PROXY_PROTOCOL_V2_SIGNATURE @ [a, b, c, d] @ p) = p" for a b c d p
    by (simp_all add: v2_signature_length)
  consider (none) "announced source destination = None"
      "proxy_protocol_v2_header source destination = PROXY_PROTOCOL_V2_SIGNATURE @ proxy_v2_local @ []"
    | (v4) src dst s d where "source = Some src" "destination = Some dst" "sa_ip src = V4 s" "sa_ip dst = V4 d"
    | (v6) src dst s d where "source = Some src" "destination = Some dst" "sa_ip src = V6 s" "sa_ip dst = V6 d"
    by (cases source; cases destination; cases "sa_ip (the source)"; cases "sa_ip (the destination)")
      (auto simp: announced_def proxy_protocol_v2_header_def)
  then show ?thesis
  proof cases
    case none
    then show ?thesis
      unfolding PROXY_PROTOCOL_V2_HEADER_LEN_def none proxy_v2_local_def split
      using v2_local_parse by (simp add: proxy_v2_local_def)
  next
    case v4
    let ?p = "octets4 s @ octets4 d @ to_be_bytes16 (sa_port src) @ to_be_bytes16 (sa_port dst)"
    have "[?p ! 8, ?p ! 9] = to_be_bytes16 (sa_port src)"
      using v2_address_parts [of "to_be_bytes16 (sa_port src)" "octets4 s" 4 "octets4 d"] by simp
    then have "parse_v2_address 0x11 ?p = Ok (Some src)"
      using v4(3) by (simp add: parse_v2_address_def)
    moreover have "parse_downstream_proxy_protocol_v2
        (PROXY_PROTOCOL_V2_SIGNATURE @ [CHR 0x21, CHR 0x11, CHR 0x00, CHR 0x0C]) ?p = parse_v2_address 0x11 ?p"
      by (subst v2_parse_proxied) (simp_all add: byte_def)
    moreover have "proxy_protocol_v2_header source destination =
        PROXY_PROTOCOL_V2_SIGNATURE @ [CHR 0x21, CHR 0x11, CHR 0x00, CHR 0x0C] @ ?p"
      using v4 by (simp add: proxy_protocol_v2_header_def)
    moreover have "announced source destination = Some src" using v4 by (simp add: announced_def)
    ultimately show ?thesis unfolding PROXY_PROTOCOL_V2_HEADER_LEN_def by (simp only: split)
  next
    case v6
    let ?p = "octets6 s @ octets6 d @ to_be_bytes16 (sa_port src) @ to_be_bytes16 (sa_port dst)"
    have "[?p ! 32, ?p ! 33] = to_be_bytes16 (sa_port src)"
      using v2_address_parts [of "to_be_bytes16 (sa_port src)" "octets6 s" 16 "octets6 d"] by simp
    then have "parse_v2_address 0x21 ?p = Ok (Some src)"
      using v6(3) by (simp add: parse_v2_address_def)
    moreover have "parse_downstream_proxy_protocol_v2
        (PROXY_PROTOCOL_V2_SIGNATURE @ [CHR 0x21, CHR 0x21, CHR 0x00, CHR 0x24]) ?p = parse_v2_address 0x21 ?p"
      by (subst v2_parse_proxied) (simp_all add: byte_def)
    moreover have "proxy_protocol_v2_header source destination =
        PROXY_PROTOCOL_V2_SIGNATURE @ [CHR 0x21, CHR 0x21, CHR 0x00, CHR 0x24] @ ?p"
      using v6 by (simp add: proxy_protocol_v2_header_def)
    moreover have "announced source destination = Some src" using v6 by (simp add: announced_def)
    ultimately show ?thesis unfolding PROXY_PROTOCOL_V2_HEADER_LEN_def by (simp only: split)
  qed
qed

text \<open>
  C12. Version 2 headers round trip. Splitting the header Fluxheim writes for an upstream into its 16
  fixed bytes and its payload, the parser accepts it and returns exactly the source address that was
  announced, or no address when an end point is missing or the families differ.
\<close>

theorem proxy_v2_roundtrip:
  "parse_downstream_proxy_protocol_v2
     (take PROXY_PROTOCOL_V2_HEADER_LEN (proxy_protocol_v2_header source destination))
     (drop PROXY_PROTOCOL_V2_HEADER_LEN (proxy_protocol_v2_header source destination)) =
   Ok (announced source destination)"
  by (rule proxy_v2_parse_header)

lemma length_dec_string_port: "length (dec_string (unat (p :: port))) \<le> 5"
proof -
  have "unat p div 10 div 10 div 10 div 10 < 10"
    using unsigned_less [of p, where ?'a = nat]
    by (simp add: div_mult2_eq [symmetric] less_mult_imp_div_less)
  then show ?thesis
    by (simp add: dec_string.simps [of "unat p"] dec_string.simps [of "unat p div 10"]
        dec_string.simps [of "unat p div 10 div 10"] dec_string.simps [of "unat p div 10 div 10 div 10"]
        dec_string.simps [of "unat p div 10 div 10 div 10 div 10"] del: dec_string.simps)
qed

lemma parse_port_dec_string: "parse_proxy_protocol_port (dec_string (unat p)) = Ok p"
proof -
  have "parse_u16 (dec_string (unat p)) = Some (unat p)"
    unfolding parse_u16_def
    using unsigned_less [of p, where ?'a = nat] by (intro parse_unsigned_dec_string) simp
  then show ?thesis by (simp add: parse_proxy_protocol_port_def)
qed

lemma no_ws_ascii: "no_ws s \<Longrightarrow> is_ascii s"
  by (auto simp: no_ws_def is_ascii_def list_all_iff)

lemma is_ascii_simps:
  "is_ascii []" "is_ascii (c # a) \<longleftrightarrow> byte c < 128 \<and> is_ascii a" "is_ascii (a @ b) \<longleftrightarrow> is_ascii a \<and> is_ascii b"
  by (simp_all add: is_ascii_def)

lemma parse_v1_line:
  assumes "no_ws family" "family \<noteq> []" "family \<noteq> ''UNKNOWN''" "length family = 4"
    and "no_ws src" "src \<noteq> []" "length src \<le> 39" and "no_ws dst" "dst \<noteq> []" "length dst \<le> 39"
  shows "parse_downstream_proxy_protocol_v1 (proxy_v1_line family src dst sport dport) =
    parse_v1_addresses family src dst (dec_string (unat sport)) (dec_string (unat dport))"
proof -
  let ?sp = "dec_string (unat sport)" and ?dp = "dec_string (unat dport)"
  let ?l = "''PROXY'' @ SP # family @ SP # src @ SP # dst @ SP # ?sp @ SP # ?dp"
  have line: "proxy_v1_line family src dst sport dport = ?l @ [CR, LF]"
    by (simp add: proxy_v1_line_def SP_def del: dec_string.simps)
  have proxy: "no_ws ''PROXY''" by (simp add: no_ws_def byte_def)
  have words: "split_whitespace ?l = [''PROXY'', family, src, dst, ?sp, ?dp]"
    using assms proxy
    by (simp add: split_whitespace_word no_ws_dec_string del: dec_string.simps append_Cons)
  have "is_ascii (?l @ [CR, LF])"
    using assms no_ws_ascii [OF proxy] no_ws_dec_string
    by (simp add: is_ascii_simps no_ws_ascii del: dec_string.simps append_Cons)
  then have utf8: "utf8_valid (?l @ [CR, LF])" by (rule utf8_valid_ascii)
  have "length (?l @ [CR, LF]) \<le> PROXY_PROTOCOL_V1_MAX_LINE"
    using assms length_dec_string_port [of sport] length_dec_string_port [of dport]
    by (simp add: PROXY_PROTOCOL_V1_MAX_LINE_def del: dec_string.simps)
  then show ?thesis
    unfolding line parse_downstream_proxy_protocol_v1_def
    using utf8 words assms(3)
    by (simp add: strip_suffix_eq_Some [THEN iffD2, OF refl] parse_v1_fields_def
        del: dec_string.simps append_Cons append_assoc)
qed

lemma proxy_v1_parse_header:
  "parse_downstream_proxy_protocol_v1 (proxy_protocol_v1_header source destination) =
     Ok (announced source destination)"
proof -
  consider (none) "announced source destination = None"
      "proxy_protocol_v1_header source destination = proxy_unknown"
    | (v4) src dst s d where "source = Some src" "destination = Some dst" "sa_ip src = V4 s" "sa_ip dst = V4 d"
    | (v6) src dst s d where "source = Some src" "destination = Some dst" "sa_ip src = V6 s" "sa_ip dst = V6 d"
    by (cases source; cases destination; cases "sa_ip (the source)"; cases "sa_ip (the destination)")
      (auto simp: announced_def proxy_protocol_v1_header_def)
  then show ?thesis
  proof cases
    case none
    have "parse_downstream_proxy_protocol_v1 proxy_unknown = Ok None" by code_simp
    with none show ?thesis by simp
  next
    case v4
    have "parse_downstream_proxy_protocol_v1
        (proxy_v1_line ''TCP4'' (display_ipv4 s) (display_ipv4 d) (sa_port src) (sa_port dst)) =
        Ok (Some \<lparr>sa_ip = V4 s, sa_port = sa_port src\<rparr>)"
      using no_ws_display_ip [of "V4 s"] no_ws_display_ip [of "V4 d"] length_display_ipv4 [of s]
        length_display_ipv4 [of d] display_ip_neq_Nil [of "V4 s"] display_ip_neq_Nil [of "V4 d"]
        parse_ip_display [of "V4 s"] parse_ip_display [of "V4 d"]
      by (subst parse_v1_line)
        (simp_all add: parse_v1_addresses_def family_matches_def parse_port_dec_string no_ws_def byte_def
          del: dec_string.simps)
    with v4 show ?thesis by (simp add: announced_def proxy_protocol_v1_header_def)
  next
    case v6
    have "parse_downstream_proxy_protocol_v1
        (proxy_v1_line ''TCP6'' (display_ipv6 s) (display_ipv6 d) (sa_port src) (sa_port dst)) =
        Ok (Some \<lparr>sa_ip = V6 s, sa_port = sa_port src\<rparr>)"
      using no_ws_display_ip [of "V6 s"] no_ws_display_ip [of "V6 d"] length_display_ipv6 [of s]
        length_display_ipv6 [of d] display_ip_neq_Nil [of "V6 s"] display_ip_neq_Nil [of "V6 d"]
        parse_ip_display [of "V6 s"] parse_ip_display [of "V6 d"]
      by (subst parse_v1_line)
        (simp_all add: parse_v1_addresses_def family_matches_def parse_port_dec_string no_ws_def byte_def
          del: dec_string.simps)
    with v6 show ?thesis by (simp add: announced_def proxy_protocol_v1_header_def)
  qed
qed

text \<open>
  C13. Version 1 headers round trip. The line Fluxheim writes fits the 108 bytes the protocol allows,
  and the parser returns exactly the announced source address, for every IPv4 and IPv6 address
  including compressed and IPv4-mapped ones, or no address when the end points are unknown.
\<close>

theorem proxy_v1_roundtrip:
  "parse_downstream_proxy_protocol_v1 (proxy_protocol_v1_header source destination) =
     Ok (announced source destination)"
  by (rule proxy_v1_parse_header)


section \<open>Networks\<close>

lemma mask_eq_iff:
  fixes x y :: "'a :: len word"
  assumes "k \<le> LENGTH('a)"
  shows "x AND push_bit k (-1) = y AND push_bit k (-1) \<longleftrightarrow> drop_bit k x = drop_bit k y"
proof -
  have "x AND push_bit k (-1) = push_bit k (drop_bit k x)" for x :: "'a word"
    by (rule bit_eqI) (auto simp: bit_simps)
  moreover have "drop_bit k (push_bit k (drop_bit k x)) = drop_bit k x" for x :: "'a word"
    by (rule bit_eqI) (auto simp: bit_simps dest: bit_imp_le_length)
  ultimately show ?thesis by metis
qed

lemma not_mask_zero_iff:
  fixes x :: "'a :: len word"
  shows "x AND NOT (push_bit k (-1)) = 0 \<longleftrightarrow> take_bit k x = 0"
proof -
  have "x AND NOT (push_bit k (-1)) = take_bit k x"
    by (rule bit_eqI) (auto simp: bit_simps)
  then show ?thesis by simp
qed

lemma drop_bit_eq_iff:
  fixes x y :: "'a :: len word"
  shows "drop_bit k x = drop_bit k y \<longleftrightarrow> unat x div 2 ^ k = unat y div 2 ^ k"
proof -
  have "unat (drop_bit k z) = unat z div 2 ^ k" for z :: "'a word"
    unfolding unat_drop_bit_eq by (rule drop_bit_eq_div)
  then show ?thesis by (simp add: word_unat_eq_iff)
qed

lemma prefix_mask_eq:
  "(if p = 0 then 0 else push_bit (32 - p) (-1)) = (push_bit (32 - p) (-1) :: ipv4)"
  "(if p = 0 then 0 else push_bit (128 - p) (-1)) = (push_bit (128 - p) (-1) :: ipv6)"
  by (auto intro!: bit_eqI simp: bit_simps)

lemma div_eq_range:
  fixes a n d :: nat
  assumes "0 < d" and "n mod d = 0"
  shows "a div d = n div d \<longleftrightarrow> n \<le> a \<and> a < n + d"
proof -
  have n: "n = d * (n div d)" using assms(2) by auto
  have "a div d = n div d \<longleftrightarrow> d * (n div d) \<le> a \<and> a < d * Suc (n div d)"
    using assms(1) by (metis div_nat_eqI dividend_less_times_div mult.commute mult_Suc_right
        times_div_less_eq_dividend add.commute)
  with n show ?thesis by (simp add: algebra_simps)
qed

lemma take_bit_zero_mod: "take_bit k (x :: 'a :: len word) = 0 \<Longrightarrow> k \<le> LENGTH('a) \<Longrightarrow> unat x mod 2 ^ k = 0"
  by (metis take_bit_eq_mod unat_0 unsigned_take_bit_eq)

lemma prefix_match_range:
  fixes n a :: "'a :: len word"
  assumes "take_bit k n = 0" and "k \<le> LENGTH('a)"
  shows "n AND push_bit k (-1) = a AND push_bit k (-1) \<longleftrightarrow> unat n \<le> unat a \<and> unat a < unat n + 2 ^ k"
  unfolding mask_eq_iff [OF assms(2)] drop_bit_eq_iff
  using div_eq_range [of "2 ^ k" "unat n" "unat a"] take_bit_zero_mod [OF assms] by auto

fun in_network :: "ip_addr \<Rightarrow> nat \<Rightarrow> ip_addr \<Rightarrow> bool" where
  "in_network (V4 n) p (V4 a) \<longleftrightarrow> unat n \<le> unat a \<and> unat a < unat n + 2 ^ (32 - p)"
| "in_network (V6 n) p (V6 a) \<longleftrightarrow> unat n \<le> unat a \<and> unat a < unat n + 2 ^ (128 - p)"
| "in_network _ p _ \<longleftrightarrow> False"

lemma cidr_contains_iff:
  assumes "cidr_network_address_is_canonical net p" and "p \<le> max_prefix net"
  shows "trusted_source_contains (TrustedCidr net p) addr \<longleftrightarrow>
    in_network net p (normalize_ipv4_mapped_ip addr)"
proof (cases net; cases "normalize_ipv4_mapped_ip addr")
  fix n a assume v: "net = V4 n" "normalize_ipv4_mapped_ip addr = V4 a"
  then have "take_bit (32 - p) n = 0"
    using assms(1) by (simp only: cidr_network_address_is_canonical.simps Let_def prefix_mask_eq not_mask_zero_iff)
  from prefix_match_range [OF this, of a] v assms(2) show ?thesis
    by (simp add: trusted_source_contains_def ipv4_prefix_match_def Let_def prefix_mask_eq del: if_cancel)
next
  fix n a assume v: "net = V6 n" "normalize_ipv4_mapped_ip addr = V6 a"
  then have "take_bit (128 - p) n = 0"
    using assms(1) by (simp only: cidr_network_address_is_canonical.simps Let_def prefix_mask_eq not_mask_zero_iff)
  from prefix_match_range [OF this, of a] v assms(2) show ?thesis
    by (simp add: trusted_source_contains_def ipv6_prefix_match_def Let_def prefix_mask_eq del: if_cancel)
qed (simp_all add: trusted_source_contains_def)



end
