(* ===== verification/Stream_IO_Props.thy ===== *)
theory Stream_IO_Props
  imports Stream_IO Proxy_Protocol_Props
begin

text \<open>
  Properties of the stream proxy's connection handling: PROXY headers cross a connection whatever
  its segmentation, only trusted peers can set the source address, and a copied direction delivers
  exactly the bytes it read within the byte limit and leaves none of them in its buffer.
\<close>

section \<open>PROXY headers over a connection\<close>

lemma no_ws_no_LF: "no_ws s \<Longrightarrow> LF \<notin> set s"
  by (auto simp: no_ws_def list_all_iff dest!: bspec)

lemma v1_line_shape:
  assumes "no_ws family" "length family = 4" "no_ws src" "length src \<le> 39" "no_ws dst" "length dst \<le> 39"
  shows "\<exists>x. proxy_v1_line family src dst sport dport = x @ [LF] \<and> LF \<notin> set x \<and>
    length x < PROXY_PROTOCOL_V1_MAX_LINE"
proof -
  let ?sp = "dec_string (unat sport)" and ?dp = "dec_string (unat dport)"
  let ?x = "''PROXY '' @ family @ SP # src @ SP # dst @ SP # ?sp @ SP # ?dp @ [CR]"
  have "LF \<notin> set ?x"
    using assms no_ws_no_LF no_ws_dec_string by (simp add: LF_def SP_def CR_def del: dec_string.simps)
  moreover have "length ?x < PROXY_PROTOCOL_V1_MAX_LINE"
    using assms length_dec_string_port [of sport] length_dec_string_port [of dport]
    by (simp add: PROXY_PROTOCOL_V1_MAX_LINE_def del: dec_string.simps)
  ultimately show ?thesis
    by (intro exI [of _ ?x]) (simp add: proxy_v1_line_def del: dec_string.simps)
qed

lemma v1_header_shape:
  "\<exists>x. proxy_protocol_v1_header source destination = x @ [LF] \<and> LF \<notin> set x \<and>
    length x < PROXY_PROTOCOL_V1_MAX_LINE"
proof -
  have unknown: "\<exists>x. proxy_unknown = x @ [LF] \<and> LF \<notin> set x \<and> length x < PROXY_PROTOCOL_V1_MAX_LINE"
    by (intro exI [of _ "''PROXY UNKNOWN'' @ [CR]"])
      (simp add: proxy_unknown_def PROXY_PROTOCOL_V1_MAX_LINE_def LF_def CR_def)
  have tcp: "no_ws ''TCP4''" "no_ws ''TCP6''" by (simp_all add: no_ws_def byte_def)
  have v4: "no_ws (display_ipv4 a)" "length (display_ipv4 a) \<le> 39" for a
    using no_ws_display_ipv4 [of a] length_display_ipv4 [of a] by auto
  have v6: "no_ws (display_ipv6 a)" for a
    using no_ws_display_ip [of "V6 a"] by simp
  show ?thesis
    unfolding proxy_protocol_v1_header_def
    by (auto split: option.split ip_addr.split intro!: unknown v1_line_shape tcp v4 v6 length_display_ipv6)
qed

lemma parse_v2_checks:
  assumes "parse_downstream_proxy_protocol_v2 header payload = Ok r"
  shows "take (length PROXY_PROTOCOL_V2_SIGNATURE) header = PROXY_PROTOCOL_V2_SIGNATURE"
    and "unat (from_be_bytes16 [header ! 14, header ! 15]) = length payload"
    and "length payload \<le> PROXY_PROTOCOL_V2_MAX_PAYLOAD"
  using assms by (auto simp: parse_downstream_proxy_protocol_v2_def Let_def split: if_splits)

lemma read_v1_header:
  assumes "list_all is_data evs" and "stream_bytes evs = proxy_protocol_v1_header source destination @ rest"
  shows "\<exists>evs'. read_downstream_proxy_protocol_v1 evs = (Ok (announced source destination), evs') \<and>
    list_all is_data evs' \<and> stream_bytes evs' = rest"
proof -
  obtain x where x: "proxy_protocol_v1_header source destination = x @ [LF]" "LF \<notin> set x"
      "length x < PROXY_PROTOCOL_V1_MAX_LINE"
    using v1_header_shape by blast
  with assms read_v1_loop_line [OF assms(1), of x rest "[]"] obtain evs' where
    "read_v1_loop [] evs = (Ok (x @ [LF]), evs')" "list_all is_data evs'" "stream_bytes evs' = rest"
    by auto
  with proxy_v1_parse_header [of source destination] x(1) show ?thesis
    by (auto simp: read_downstream_proxy_protocol_v1_def)
qed

lemma v2_header_length: "PROXY_PROTOCOL_V2_HEADER_LEN \<le> length (proxy_protocol_v2_header source destination)"
  by (auto simp: proxy_protocol_v2_header_def PROXY_PROTOCOL_V2_HEADER_LEN_def v2_signature_length
      proxy_v2_local_def split: option.split ip_addr.split)

lemma read_v2_header:
  assumes "list_all is_data evs" and "stream_bytes evs = proxy_protocol_v2_header source destination @ rest"
  shows "\<exists>evs'. read_downstream_proxy_protocol_v2 evs = (Ok (announced source destination), evs') \<and>
    list_all is_data evs' \<and> stream_bytes evs' = rest"
proof -
  let ?h = "take PROXY_PROTOCOL_V2_HEADER_LEN (proxy_protocol_v2_header source destination)"
  let ?p = "drop PROXY_PROTOCOL_V2_HEADER_LEN (proxy_protocol_v2_header source destination)"
  note parse = proxy_v2_parse_header [of source destination]
  note checks = parse_v2_checks [OF parse]
  have "stream_bytes evs = ?h @ ?p @ rest" using assms(2) by simp
  moreover have "PROXY_PROTOCOL_V2_HEADER_LEN \<le> u64_max"
    by (simp add: PROXY_PROTOCOL_V2_HEADER_LEN_def u64_max_def)
  ultimately obtain evs1 where e1: "read_exact_proxy_header PROXY_PROTOCOL_V2_HEADER_LEN [] evs = (Ok ?h, evs1)"
      "list_all is_data evs1" "stream_bytes evs1 = ?p @ rest"
    using read_exact_data [OF assms(1), of ?h "?p @ rest" "[]" PROXY_PROTOCOL_V2_HEADER_LEN]
      v2_header_length [of source destination]
    by auto
  have "length ?p \<le> u64_max"
    using checks(3) by (simp add: PROXY_PROTOCOL_V2_MAX_PAYLOAD_def u64_max_def)
  then obtain evs2 where e2: "read_exact_proxy_header (length ?p) [] evs1 = (Ok ?p, evs2)"
      "list_all is_data evs2" "stream_bytes evs2 = rest"
    using read_exact_data [OF e1(2,3), of "[]" "length ?p"] by auto
  define evs3 where "evs3 = (if length ?p > 0 then evs2 else evs1)"
  have "(if length ?p > 0 then read_exact_proxy_header (length ?p) [] evs1 else (Ok [], evs1)) = (Ok ?p, evs3)"
      "list_all is_data evs3" "stream_bytes evs3 = rest"
    using e1 e2 by (auto simp: evs3_def)
  with e1 checks parse show ?thesis
    by (intro exI [of _ evs3]) (simp add: read_downstream_proxy_protocol_v2_def Let_def del: length_drop)
qed





section \<open>Copying\<close>

lemma clear_range_trans:
  assumes "a \<le> b" "b \<le> c" "c \<le> length buf"
  shows "clear_range (clear_range buf a b) b c = clear_range buf a c"
proof -
  have "replicate (b - a) z @ replicate (c - b) z = replicate (c - a) z" for z :: char
    using assms by (simp add: replicate_add [symmetric])
  then show ?thesis
    using assms by (simp add: clear_range_def min_def)
qed

lemma clear_range_same: "a \<le> length buf \<Longrightarrow> clear_range buf a a = buf"
  by (simp add: clear_range_def)

lemma drop_clear_range: "a \<le> b \<Longrightarrow> b \<le> length buf \<Longrightarrow> drop b (clear_range buf a b) = drop b buf"
  by (simp add: clear_range_def)

lemma length_clear_range: "a \<le> b \<Longrightarrow> b \<le> length buf \<Longrightarrow> length (clear_range buf a b) = length buf"
  by (simp add: clear_range_def)

lemma write_loop_spec:
  assumes "write_loop len offset st ws = (r, st')" and "offset \<le> len" and "len \<le> length (cp_buffer st)"
  shows "\<exists>stop. offset \<le> stop \<and> stop \<le> len \<and>
    cp_out st' = cp_out st @ take (stop - offset) (drop offset (cp_buffer st)) \<and>
    cp_buffer st' = clear_range (cp_buffer st) offset stop \<and> (r = Some (Ok ()) \<longrightarrow> stop = len)"
  using assms
proof (induction len offset st ws rule: write_loop.induct)
  case (1 len offset st)
  then show ?case by (intro exI [of _ offset]) (auto simp: clear_range_same split: if_splits)
next
  case (2 len offset st w ws)
  show ?case
  proof (cases "\<exists>n. w = Wrote n \<and> offset < len \<and> n \<noteq> 0 \<and> checked_add offset n = Some (offset + n) \<and> offset + n \<le> len")
    case True
    then obtain n where n: "w = Wrote n" "offset < len" "n \<noteq> 0" "checked_add offset n = Some (offset + n)"
      "offset + n \<le> len" by blast
    let ?st = "st\<lparr>cp_out := cp_out st @ take n (drop offset (cp_buffer st)),
        cp_buffer := clear_range (cp_buffer st) offset (offset + n)\<rparr>"
    have "write_loop len (offset + n) ?st ws = (r, st')" using 2(2) n by simp
    moreover have "len \<le> length (cp_buffer ?st)" using 2(4) n(5) by (simp add: length_clear_range)
    ultimately obtain stop where "offset + n \<le> stop" "stop \<le> len"
      "cp_out st' = cp_out ?st @ take (stop - (offset + n)) (drop (offset + n) (cp_buffer ?st))"
      "cp_buffer st' = clear_range (cp_buffer ?st) (offset + n) stop" "r = Some (Ok ()) \<longrightarrow> stop = len"
      using 2(1) [of n "offset + n"] n by auto
    moreover have "take n (drop offset d) @ take (stop - (n + offset)) (drop (n + offset) d) =
        take (stop - offset) (drop offset d)" if "offset + n \<le> stop" for d :: bytes and stop
      using take_add [of n "stop - (offset + n)" "drop offset d"] that by (simp add: add.commute)
    ultimately show ?thesis
      using 2(4) n(5) by (intro exI [of _ stop]) (simp add: drop_clear_range clear_range_trans add.commute)
  next
    case False
    then show ?thesis
      using 2(2,3,4) by (intro exI [of _ offset])
        (auto simp: clear_range_same checked_add_def split: if_splits write_event.splits option.splits)
  qed
qed

lemma net_read_stream:
  assumes "net_read n evs = (Ok bs, evs')" and "0 < n"
  shows "stream_bytes evs = bs @ stream_bytes evs' \<and> length bs \<le> n \<and> (bs = [] \<longrightarrow> stream_bytes evs = [])"
  using assms by (induction n evs rule: net_read.induct) (auto split: if_splits)

lemma checked_stream_byte_count_Ok:
  "checked_stream_byte_count c n lim = Ok c' \<Longrightarrow> c' = c + n \<and> (\<forall>l. lim = Some l \<longrightarrow> c + n \<le> l)"
  by (auto simp: checked_stream_byte_count_def checked_add_def split: option.splits if_splits)

lemma clear_new_buffer:
  assumes "length bs \<le> STREAM_COPY_BUFFER_BYTES"
  shows "clear_range (bs @ drop (length bs) copy_buffer_new) 0 (length bs) = copy_buffer_new"
  using assms by (simp add: clear_range_def copy_buffer_new_def replicate_add [symmetric])

definition copied_ok :: "nat option \<Rightarrow> nat \<Rightarrow> copy_state \<Rightarrow> bytes \<Rightarrow> nat flux_result option \<times> copy_state \<Rightarrow> bool" where
  "copied_ok lim copied st input res \<longleftrightarrow>
     (\<exists>w. cp_out (snd res) = cp_out st @ w \<and> prefix w input \<and>
       (\<forall>l. lim = Some l \<longrightarrow> copied \<le> l \<longrightarrow> copied + length w \<le> l) \<and>
       (\<forall>n. fst res = Some (Ok n) \<longrightarrow>
          w = input \<and> n = copied + length w \<and> cp_buffer (snd res) = copy_buffer_new))"

lemma copy_direction_ok:
  assumes "cp_buffer st = copy_buffer_new"
  shows "copied_ok lim copied st (stream_bytes evs) (copy_direction lim shutdown copied st evs)"
  using assms
proof (induction lim shutdown copied st evs rule: copy_direction.induct)
  case (1 lim shutdown copied st evs)
  have pos: "0 < STREAM_COPY_BUFFER_BYTES" by (simp add: STREAM_COPY_BUFFER_BYTES_def)
  obtain rr evs' where rd: "net_read STREAM_COPY_BUFFER_BYTES evs = (rr, evs')"
    by (cases "net_read STREAM_COPY_BUFFER_BYTES evs")
  show ?case
  proof (cases rr)
    case (Err k)
    then show ?thesis using rd by (subst copy_direction.simps) (simp add: copied_ok_def)
  next
    case (Ok bs)
    note st = net_read_stream [OF rd [unfolded Ok] pos]
    show ?thesis
    proof (cases "bs = []")
      case True
      then show ?thesis
        using rd Ok st 1(2) by (subst copy_direction.simps) (auto simp: copied_ok_def split: result.split)
    next
      case ne: False
      let ?st = "st\<lparr>cp_buffer := bs @ drop (length bs) (cp_buffer st)\<rparr>"
      show ?thesis
      proof (cases "checked_stream_byte_count copied (length bs) lim")
        case (Err e)
        then show ?thesis using rd Ok ne by (subst copy_direction.simps) (simp add: copied_ok_def)
      next
        case cnt: (Ok c')
        note c' = checked_stream_byte_count_Ok [OF cnt]
        obtain r st' where wl: "write_loop (length bs) 0 ?st (cp_writes st) = (r, st')"
          by (cases "write_loop (length bs) 0 ?st (cp_writes st)")
        have "length bs \<le> length (cp_buffer ?st)" by simp
        from write_loop_spec [OF wl le0 this] obtain stop where s: "stop \<le> length bs"
          "cp_out st' = cp_out ?st @ take (stop - 0) (drop 0 (cp_buffer ?st))"
          "cp_buffer st' = clear_range (cp_buffer ?st) 0 stop" "r = Some (Ok ()) \<longrightarrow> stop = length bs"
          by blast
        then have stop: "stop \<le> length bs" "cp_out st' = cp_out st @ take stop bs"
          "cp_buffer st' = clear_range (cp_buffer ?st) 0 stop" "r = Some (Ok ()) \<longrightarrow> stop = length bs"
          by simp_all
        show ?thesis
        proof (cases "r = Some (Ok ())")
          case True
          have "cp_buffer st' = copy_buffer_new"
            using stop(3,4) True st 1(2) clear_new_buffer [of bs] by simp
          then have IH: "copied_ok lim c' st' (stream_bytes evs') (copy_direction lim shutdown c' st' evs')"
            using 1(1) [OF rd [symmetric] Ok ne cnt wl [symmetric] True] by simp
          have eq: "copy_direction lim shutdown copied st evs = copy_direction lim shutdown c' st' evs'"
            using rd Ok ne cnt wl True by (subst copy_direction.simps) simp
          from IH stop(2,4) True c' st show ?thesis
            unfolding eq copied_ok_def by (auto simp: add.assoc)
        next
          case False
          have eq: "fst (copy_direction lim shutdown copied st evs) \<noteq> Some (Ok n)"
              "snd (copy_direction lim shutdown copied st evs) = st'" for n
            using rd Ok ne cnt wl False
            by (subst copy_direction.simps, auto split: option.split result.split)+
          have "prefix (take stop bs) (stream_bytes evs)"
            using st take_is_prefix [of stop bs] by auto
          with eq stop(1,2) c' show ?thesis
            unfolding copied_ok_def by (intro exI [of _ "take stop bs"]) auto
        qed
      qed
    qed
  qed
qed

text \<open>
  C17. Copying one direction loses nothing and invents nothing. Whatever the reader delivers and
  however the writer takes it, the bytes written are a prefix of the bytes that arrived and stay
  within the connection's byte limit. When the copy ends normally, exactly the bytes that arrived
  were written, the count it returns is their number, and none of them is left in the copy buffer.
\<close>

theorem copy_direction_exact:
  assumes "copy_direction lim shutdown 0 \<lparr>cp_buffer = copy_buffer_new, cp_out = [], cp_writes = ws\<rparr> evs = (r, st)"
  shows "prefix (cp_out st) (stream_bytes evs) \<and>
    (\<forall>l. lim = Some l \<longrightarrow> length (cp_out st) \<le> l) \<and>
    (\<forall>n. r = Some (Ok n) \<longrightarrow>
       cp_out st = stream_bytes evs \<and> n = length (stream_bytes evs) \<and> cp_buffer st = copy_buffer_new)"
  using copy_direction_ok [of "\<lparr>cp_buffer = copy_buffer_new, cp_out = [], cp_writes = ws\<rparr>" lim 0 evs shutdown]
  unfolding assms by (auto simp: copied_ok_def)

theorem copy_direction_exact_witness:
  "\<exists>st. copy_direction (Some 100) (Ok ()) 0
      \<lparr>cp_buffer = copy_buffer_new, cp_out = [], cp_writes = [Wrote 2, Wrote 1, Wrote 2]\<rparr>
      [Data ''abc'', Data ''de''] = (Some (Ok 5), st) \<and> cp_out st = ''abcde''"
proof -
  let ?c = "copy_direction (Some 100) (Ok ()) 0
      \<lparr>cp_buffer = copy_buffer_new, cp_out = [], cp_writes = [Wrote 2, Wrote 1, Wrote 2]\<rparr>
      [Data ''abc'', Data ''de'']"
  obtain r st where c: "?c = (r, st)" by (cases ?c)
  have "fst ?c = Some (Ok 5)"
    by (simp add: copy_direction.simps STREAM_COPY_BUFFER_BYTES_def checked_stream_byte_count_def
        checked_add_def u64_max_def)
  with copy_direction_exact [OF c] c show ?thesis by simp
qed

end
