(* ===== verification/Stream_Selector.thy ===== *)
theory Stream_Selector
  imports Stream_Proxy "HOL-Library.Multiset"
begin

text \<open>
  The weighted round-robin selector of \<open>crates/fluxheim-stream/src/selector.rs\<close>, its invariant, and
  its fairness: over one round of the counter every primary upstream comes first as often as its
  weight says.
\<close>

section \<open>Definitions\<close>

definition MAX_STREAM_UPSTREAM_WEIGHT :: nat where "MAX_STREAM_UPSTREAM_WEIGHT = 1000"
definition MAX_STREAM_UPSTREAM_TOTAL_WEIGHT :: nat where "MAX_STREAM_UPSTREAM_TOTAL_WEIGHT = 65535"

record runtime_upstream =
  ru_authority :: string
  ru_alias :: "string option"
  ru_weight :: nat
  ru_backup :: bool
  ru_drained :: bool

record selected_upstream =
  su_authority :: string
  su_alias :: "string option"
  su_backup :: bool

definition selected_label :: "selected_upstream \<Rightarrow> string" where
  "selected_label u = (case su_alias u of Some a \<Rightarrow> a | None \<Rightarrow> su_authority u)"

record stream_selector =
  ss_upstreams :: "runtime_upstream list"
  ss_primary_indices :: "nat list"
  ss_backup_indices :: "nat list"
  ss_primary_weight_total :: nat
  ss_next_upstream :: nat

definition route_upstreams :: "stream_route \<Rightarrow> string list" where
  "route_upstreams route =
     (case sr_upstream route of None \<Rightarrow> [] | Some u \<Rightarrow> [u]) @ sr_upstreams route"

definition list_get :: "'a list \<Rightarrow> nat \<Rightarrow> 'a option" where
  "list_get xs i = (if i < length xs then Some (xs ! i) else None)"

definition runtime_stream_upstreams :: "stream_route \<Rightarrow> runtime_upstream list" where
  "runtime_stream_upstreams route =
     (let backup = map to_ascii_lowercase (sr_backup_upstreams route);
          drain = map to_ascii_lowercase (sr_drain_upstreams route)
      in map (\<lambda>(index, authority).
           let normalized = to_ascii_lowercase authority
           in \<lparr>ru_authority = authority,
               ru_alias = list_get (sr_upstream_aliases route) index,
               ru_weight = (case list_get (sr_upstream_weights route) index of Some w \<Rightarrow> w | None \<Rightarrow> 1),
               ru_backup = (normalized \<in> set backup),
               ru_drained = (normalized \<in> set drain)\<rparr>)
         (enumerate 0 (route_upstreams route)))"

fun total_weight :: "runtime_upstream list \<Rightarrow> nat list \<Rightarrow> nat \<Rightarrow> nat flux_result" where
  "total_weight upstreams [] acc = Ok acc"
| "total_weight upstreams (i # is) acc =
     (let weight = ru_weight (upstreams ! i)
      in if weight = 0 \<or> weight > MAX_STREAM_UPSTREAM_WEIGHT
         then Err (InvalidInput ''stream upstream weights must be between 1 and 1000'')
         else (case checked_add acc weight of
            None \<Rightarrow> Err (InvalidInput ''stream upstream weight total exceeds platform capacity'')
          | Some t \<Rightarrow>
              if t > MAX_STREAM_UPSTREAM_TOTAL_WEIGHT
              then Err (InvalidInput ''stream upstream weight total exceeds configured maximum'')
              else total_weight upstreams is t))"

definition indices_where :: "(runtime_upstream \<Rightarrow> bool) \<Rightarrow> runtime_upstream list \<Rightarrow> nat list" where
  "indices_where P upstreams = map fst (filter (\<lambda>(i, u). P u) (enumerate 0 upstreams))"

definition selector_from_route :: "stream_route \<Rightarrow> stream_selector flux_result" where
  "selector_from_route route =
     (let upstreams = runtime_stream_upstreams route
      in if upstreams = []
         then Err (InvalidInput ''stream route requires at least one upstream'')
         else
           let primary_indices = indices_where (\<lambda>u. \<not> ru_backup u \<and> \<not> ru_drained u) upstreams
           in if primary_indices = []
              then Err (InvalidInput ''stream route requires at least one selectable primary upstream'')
              else
                let backup_indices = indices_where (\<lambda>u. ru_backup u \<and> \<not> ru_drained u) upstreams
                in and_then (total_weight upstreams primary_indices 0) (\<lambda>t.
                     Ok \<lparr>ss_upstreams = upstreams, ss_primary_indices = primary_indices,
                         ss_backup_indices = backup_indices, ss_primary_weight_total = t,
                         ss_next_upstream = 0\<rparr>))"

fun weighted_pick :: "runtime_upstream list \<Rightarrow> nat \<Rightarrow> nat \<Rightarrow> nat list \<Rightarrow> nat option" where
  "weighted_pick upstreams weighted_index seen [] = None"
| "weighted_pick upstreams weighted_index seen (i # is) =
     (let seen' = saturating_add seen (ru_weight (upstreams ! i))
      in if weighted_index < seen' then Some i else weighted_pick upstreams weighted_index seen' is)"

definition first_index :: "stream_selector \<Rightarrow> nat" where
  "first_index s =
     (let weighted_index = ss_next_upstream s mod ss_primary_weight_total s
      in case weighted_pick (ss_upstreams s) weighted_index 0 (ss_primary_indices s) of
           Some i \<Rightarrow> i
         | None \<Rightarrow> hd (ss_primary_indices s))"

definition candidate_indices :: "stream_selector \<Rightarrow> nat list" where
  "candidate_indices s =
     filter (\<lambda>i. i = first_index s) (ss_primary_indices s) @
     filter (\<lambda>i. i \<noteq> first_index s) (ss_primary_indices s) @
     ss_backup_indices s"

definition select_candidates :: "stream_selector \<Rightarrow> selected_upstream list \<times> stream_selector" where
  "select_candidates s =
     (map (\<lambda>i. \<lparr>su_authority = ru_authority (ss_upstreams s ! i),
                 su_alias = ru_alias (ss_upstreams s ! i),
                 su_backup = ru_backup (ss_upstreams s ! i)\<rparr>) (candidate_indices s),
      s\<lparr>ss_next_upstream := (ss_next_upstream s + 1) mod 2 ^ 64\<rparr>)"


section \<open>Invariant\<close>

definition weights :: "stream_selector \<Rightarrow> nat list" where
  "weights s = map (\<lambda>i. ru_weight (ss_upstreams s ! i)) (ss_primary_indices s)"

definition selector_inv :: "stream_selector \<Rightarrow> bool" where
  "selector_inv s \<longleftrightarrow>
     ss_primary_indices s = indices_where (\<lambda>u. \<not> ru_backup u \<and> \<not> ru_drained u) (ss_upstreams s) \<and>
     ss_backup_indices s = indices_where (\<lambda>u. ru_backup u \<and> \<not> ru_drained u) (ss_upstreams s) \<and>
     ss_primary_indices s \<noteq> [] \<and> (\<forall>w \<in> set (weights s). 0 < w) \<and>
     ss_primary_weight_total s = sum_list (weights s) \<and>
     ss_primary_weight_total s \<le> MAX_STREAM_UPSTREAM_TOTAL_WEIGHT \<and> ss_next_upstream s < 2 ^ 64"

lemma indices_where_upt: "indices_where P us = filter (\<lambda>i. P (us ! i)) [0..<length us]"
proof -
  have "enumerate 0 us = map (\<lambda>i. (i, us ! i)) [0..<length us]"
    by (rule nth_equalityI) (simp_all add: nth_enumerate_eq)
  then show ?thesis
    by (simp add: indices_where_def filter_map comp_def)
qed

lemma total_weight_Ok:
  "total_weight us is acc = Ok t \<Longrightarrow>
     t = acc + sum_list (map (\<lambda>i. ru_weight (us ! i)) is) \<and> (\<forall>i \<in> set is. 0 < ru_weight (us ! i)) \<and>
     (is \<noteq> [] \<longrightarrow> t \<le> MAX_STREAM_UPSTREAM_TOTAL_WEIGHT)"
proof (induction "is" arbitrary: acc)
  case (Cons i "is")
  then have t: "total_weight us is (acc + ru_weight (us ! i)) = Ok t" "0 < ru_weight (us ! i)"
    "acc + ru_weight (us ! i) \<le> MAX_STREAM_UPSTREAM_TOTAL_WEIGHT"
    by (auto simp: Let_def checked_add_def split: if_splits)
  with Cons.IH [OF t(1)] show ?case by (cases "is = []") auto
qed simp

lemma selector_from_route_inv: "selector_from_route route = Ok s \<Longrightarrow> selector_inv s"
  by (auto simp: selector_from_route_def Let_def selector_inv_def weights_def result_simps
      dest!: total_weight_Ok split: if_splits)

lemma select_candidates_inv: "selector_inv s \<Longrightarrow> selector_inv (snd (select_candidates s))"
  unfolding selector_inv_def select_candidates_def weights_def by auto

lemma weights_total_pos: "selector_inv s \<Longrightarrow> 0 < ss_primary_weight_total s"
  by (cases "ss_primary_indices s") (auto simp: selector_inv_def weights_def)


section \<open>Fairness\<close>

lemma weighted_pick_round:
  assumes "seen + sum_list (map (\<lambda>i. ru_weight (us ! i)) is) \<le> u64_max"
  shows "map (\<lambda>x. weighted_pick us x seen is) [seen..<seen + sum_list (map (\<lambda>i. ru_weight (us ! i)) is)] =
    concat (map (\<lambda>i. replicate (ru_weight (us ! i)) (Some i)) is)"
  using assms
proof (induction "is" arbitrary: seen)
  case Nil
  then show ?case by simp
next
  case (Cons i "is")
  let ?w = "ru_weight (us ! i)" and ?r = "sum_list (map (\<lambda>i. ru_weight (us ! i)) is)"
  have sat: "saturating_add seen ?w = seen + ?w"
    using Cons.prems by (intro saturating_add_exact) simp
  let ?p = "\<lambda>x. weighted_pick us x seen (i # is)"
  have upt: "[seen..<seen + (?w + ?r)] = [seen..<seen + ?w] @ [seen + ?w..<(seen + ?w) + ?r]"
    using upt_add_eq_append [of seen "seen + ?w" ?r] by (simp add: add.assoc)
  have own: "map ?p [seen..<seen + ?w] = replicate ?w (Some i)"
    by (rule nth_equalityI) (simp_all add: sat)
  have rest: "map ?p [seen + ?w..<(seen + ?w) + ?r] =
      map (\<lambda>x. weighted_pick us x (seen + ?w) is) [seen + ?w..<(seen + ?w) + ?r]"
    by (rule map_cong [OF refl]) (simp add: sat)
  have "map ?p [seen..<seen + (?w + ?r)] =
      replicate ?w (Some i) @ concat (map (\<lambda>i. replicate (ru_weight (us ! i)) (Some i)) is)"
    unfolding upt map_append own rest using Cons.IH [of "seen + ?w"] Cons.prems by (simp add: add.assoc)
  then show ?case by simp
qed

lemma mset_mod_round:
  assumes "0 < W"
  shows "image_mset (\<lambda>j. j mod W) (mset [k..<k + W]) = mset [0..<W]"
proof (induction k)
  case 0
  have "map (\<lambda>j. j mod W) [0..<W] = [0..<W]" by (rule nth_equalityI) simp_all
  then show ?case by (metis add_0 mset_map)
next
  case (Suc k)
  have "[k..<k + W] = k # [Suc k..<k + W]" using assms by (simp add: upt_conv_Cons)
  then have "mset [Suc k..<Suc k + W] + {#k#} = mset [k..<k + W] + {#k + W#}"
    using assms by simp
  then have "image_mset (\<lambda>j. j mod W) (mset [Suc k..<Suc k + W]) + {#k mod W#} =
      image_mset (\<lambda>j. j mod W) (mset [k..<k + W]) + {#(k + W) mod W#}"
    by (metis image_mset_single image_mset_union)
  with Suc show ?case by simp
qed

definition select_firsts :: "nat \<Rightarrow> stream_selector \<Rightarrow> nat list" where
  "select_firsts n s = map (\<lambda>k. first_index (((snd \<circ> select_candidates) ^^ k) s)) [0..<n]"

lemma select_iterate:
  assumes "ss_next_upstream s + k < 2 ^ 64"
  shows "((snd \<circ> select_candidates) ^^ k) s = s\<lparr>ss_next_upstream := ss_next_upstream s + k\<rparr>"
  using assms
proof (induction k)
  case 0
  then show ?case by simp
next
  case (Suc k)
  then show ?case by (simp add: select_candidates_def)
qed

lemma first_index_pick:
  assumes "selector_inv s"
  shows "weighted_pick (ss_upstreams s) (ss_next_upstream s mod ss_primary_weight_total s) 0
      (ss_primary_indices s) = Some (first_index s)"
proof -
  let ?W = "ss_primary_weight_total s"
  let ?p = "\<lambda>x. weighted_pick (ss_upstreams s) x 0 (ss_primary_indices s)"
  have W: "?W = sum_list (weights s)" "?W \<le> u64_max"
    using assms by (auto simp: selector_inv_def MAX_STREAM_UPSTREAM_TOTAL_WEIGHT_def u64_max_def)
  then have "map ?p [0..<?W] = concat (map (\<lambda>i. replicate (ru_weight (ss_upstreams s ! i)) (Some i)) (ss_primary_indices s))"
    using weighted_pick_round [of 0 "ss_upstreams s" "ss_primary_indices s"] by (simp add: weights_def)
  moreover have "?p (ss_next_upstream s mod ?W) \<in> set (map ?p [0..<?W])"
    using weights_total_pos [OF assms] by simp
  ultimately have "?p (ss_next_upstream s mod ?W) \<noteq> None" by auto
  then show ?thesis by (auto simp: first_index_def Let_def)
qed

lemma select_firsts_mset:
  assumes "selector_inv s" and "ss_next_upstream s + ss_primary_weight_total s \<le> 2 ^ 64"
  shows "image_mset Some (mset (select_firsts (ss_primary_weight_total s) s)) =
    mset (concat (map (\<lambda>i. replicate (ru_weight (ss_upstreams s ! i)) (Some i)) (ss_primary_indices s)))"
proof -
  let ?W = "ss_primary_weight_total s" and ?n = "ss_next_upstream s"
  let ?p = "\<lambda>x. weighted_pick (ss_upstreams s) x 0 (ss_primary_indices s)"
  have first: "Some (first_index (((snd \<circ> select_candidates) ^^ k) s)) = ?p ((?n + k) mod ?W)" if "k < ?W" for k
  proof -
    let ?s = "s\<lparr>ss_next_upstream := ?n + k\<rparr>"
    have "selector_inv ?s" using assms that by (auto simp: selector_inv_def weights_def)
    from first_index_pick [OF this] show ?thesis
      using select_iterate [of s k] assms(2) that by simp
  qed
  have "map Some (select_firsts ?W s) = map (\<lambda>k. ?p ((?n + k) mod ?W)) [0..<?W]"
    using first by (simp add: select_firsts_def)
  also have "\<dots> = map (\<lambda>j. ?p (j mod ?W)) [?n..<?n + ?W]"
    by (rule nth_equalityI) simp_all
  finally have "image_mset Some (mset (select_firsts ?W s)) =
      image_mset ?p (image_mset (\<lambda>j. j mod ?W) (mset [?n..<?n + ?W]))"
    by (metis (no_types, lifting) image_mset.compositionality comp_apply mset_map multiset.map_cong0)
  also have "\<dots> = mset (map ?p [0..<?W])"
    unfolding mset_mod_round [OF weights_total_pos [OF assms(1)]] by simp
  also have "map ?p [0..<?W] = concat (map (\<lambda>i. replicate (ru_weight (ss_upstreams s ! i)) (Some i)) (ss_primary_indices s))"
    using weighted_pick_round [of 0 "ss_upstreams s" "ss_primary_indices s"] assms(1)
    by (auto simp: selector_inv_def weights_def MAX_STREAM_UPSTREAM_TOTAL_WEIGHT_def u64_max_def)
  finally show ?thesis .
qed

lemma distinct_indices: "distinct (indices_where P us)"
  by (simp add: indices_where_upt)

lemma first_index_primary: "selector_inv s \<Longrightarrow> first_index s \<in> set (ss_primary_indices s)"
proof -
  assume inv: "selector_inv s"
  have "weighted_pick us x seen is = Some i \<Longrightarrow> i \<in> set is" for us x seen "is" i
    by (induction "is" arbitrary: seen) (auto simp: Let_def split: if_splits)
  with first_index_pick [OF inv] show ?thesis by blast
qed

lemma filter_eq_single: "distinct xs \<Longrightarrow> x \<in> set xs \<Longrightarrow> filter (\<lambda>i. i = x) xs = [x]"
  by (induction xs) (auto simp: filter_empty_conv)

lemma count_list_round:
  assumes "distinct is" and "i \<in> set is"
  shows "count (mset (concat (map (\<lambda>j. replicate (w j) (Some j)) is))) (Some i) = w i"
  using assms
proof (induction "is")
  case (Cons j "is")
  have "count (mset (concat (map (\<lambda>j. replicate (w j) (Some j)) is))) (Some i) = 0" if "i \<notin> set is"
    using that by (simp add: count_eq_zero_iff)
  with Cons show ?case by auto
qed simp





end
