(* ===== verification/Stream_Address.thy ===== *)
theory Stream_Address
  imports Stream_Proxy Proxy_Protocol_Props
begin

text \<open>
  The filter for resolved upstream addresses against the table of special-purpose IPv4 networks: the
  octet conditions of \<open>stream_dns_resolved_ipv4_address_allowed\<close> are exactly the table, and an
  IPv4-mapped or IPv4-compatible IPv6 address gets the verdict of the IPv4 address inside.
\<close>

definition ipv4_of :: "nat \<Rightarrow> nat \<Rightarrow> nat \<Rightarrow> nat \<Rightarrow> nat" where
  "ipv4_of a b c d = ((a * 256 + b) * 256 + c) * 256 + d"

definition special_ipv4_networks :: "(nat \<times> nat) list" where
  "special_ipv4_networks =
     [(ipv4_of 0 0 0 0, 8), (ipv4_of 10 0 0 0, 8), (ipv4_of 100 64 0 0, 10), (ipv4_of 127 0 0 0, 8),
      (ipv4_of 169 254 0 0, 16), (ipv4_of 172 16 0 0, 12), (ipv4_of 192 0 2 0, 24),
      (ipv4_of 192 168 0 0, 16), (ipv4_of 198 18 0 0, 15), (ipv4_of 198 51 100 0, 24),
      (ipv4_of 203 0 113 0, 24), (ipv4_of 224 0 0 0, 4), (ipv4_of 240 0 0 0, 4)]"

definition in_range :: "nat \<Rightarrow> nat \<Rightarrow> ipv4 \<Rightarrow> bool" where
  "in_range n p a \<longleftrightarrow> n \<le> unat a \<and> unat a < n + 2 ^ (32 - p)"

lemma block_iff:
  fixes r d n q :: nat
  assumes "r < d"
  shows "n * d \<le> q * d + r \<and> q * d + r < n * d + d \<longleftrightarrow> q = n"
proof
  assume "n * d \<le> q * d + r \<and> q * d + r < n * d + d"
  then have "n * d < Suc q * d" "q * d < Suc n * d" using assms by (simp_all add: add.commute)
  then have "n < Suc q" "q < Suc n" by (simp_all only: mult_less_cancel2)
  then show "q = n" by simp
qed (use assms in simp)

lemma in_range_block:
  assumes "unat a = q * 2 ^ (32 - p) + r" and "r < 2 ^ (32 - p)" and "m = n * 2 ^ (32 - p)"
  shows "in_range m p a \<longleftrightarrow> q = n"
  unfolding in_range_def assms(1,3) using assms(2) by (rule block_iff)

lemma unat_octets:
  "unat a = ipv4_of (octet a 0) (octet a 1) (octet a 2) (octet a 3)"
  using octet_list_value_octets [of a] by (simp add: octet_list_value_def ipv4_of_def)

lemma in_range_octets:
  "in_range (ipv4_of n 0 0 0) 8 a \<longleftrightarrow> octet a 0 = n"
  "in_range (ipv4_of n (64 * k) 0 0) 10 a \<longleftrightarrow> 4 * octet a 0 + octet a 1 div 64 = 4 * n + k"
  "in_range (ipv4_of n (16 * k) 0 0) 12 a \<longleftrightarrow> 16 * octet a 0 + octet a 1 div 16 = 16 * n + k"
  "in_range (ipv4_of n (2 * k) 0 0) 15 a \<longleftrightarrow> 128 * octet a 0 + octet a 1 div 2 = 128 * n + k"
  "in_range (ipv4_of n m 0 0) 16 a \<longleftrightarrow> 256 * octet a 0 + octet a 1 = 256 * n + m"
  "in_range (ipv4_of n m k 0) 24 a \<longleftrightarrow> 65536 * octet a 0 + 256 * octet a 1 + octet a 2 = 65536 * n + 256 * m + k"
  "in_range (ipv4_of (16 * n) 0 0 0) 4 a \<longleftrightarrow> octet a 0 div 16 = n"
proof -
  let ?o = "octet a"
  note less = octet_less [of a 0] octet_less [of a 1] octet_less [of a 2] octet_less [of a 3]
  show "in_range (ipv4_of n 0 0 0) 8 a \<longleftrightarrow> ?o 0 = n"
    using less by (intro in_range_block [where r = "ipv4_of 0 (?o 1) (?o 2) (?o 3)"])
      (simp_all add: unat_octets ipv4_of_def del: octet_less)
  have "in_range (ipv4_of n (64 * k) 0 0) 10 a \<longleftrightarrow> 4 * ?o 0 + h = 4 * n + k" if "?o 1 = 64 * h + l" "l < 64" for h l
    using less that by (intro in_range_block [where r = "ipv4_of 0 l (?o 2) (?o 3)"])
      (simp_all add: unat_octets ipv4_of_def algebra_simps del: octet_less)
  from this [of "?o 1 div 64" "?o 1 mod 64"]
  show "in_range (ipv4_of n (64 * k) 0 0) 10 a \<longleftrightarrow> 4 * ?o 0 + ?o 1 div 64 = 4 * n + k" by simp
  have "in_range (ipv4_of n (16 * k) 0 0) 12 a \<longleftrightarrow> 16 * ?o 0 + h = 16 * n + k" if "?o 1 = 16 * h + l" "l < 16" for h l
    using less that by (intro in_range_block [where r = "ipv4_of 0 l (?o 2) (?o 3)"])
      (simp_all add: unat_octets ipv4_of_def algebra_simps del: octet_less)
  from this [of "?o 1 div 16" "?o 1 mod 16"]
  show "in_range (ipv4_of n (16 * k) 0 0) 12 a \<longleftrightarrow> 16 * ?o 0 + ?o 1 div 16 = 16 * n + k" by simp
  have "in_range (ipv4_of n (2 * k) 0 0) 15 a \<longleftrightarrow> 128 * ?o 0 + h = 128 * n + k" if "?o 1 = 2 * h + l" "l < 2" for h l
    using less that by (intro in_range_block [where r = "ipv4_of 0 l (?o 2) (?o 3)"])
      (simp_all add: unat_octets ipv4_of_def algebra_simps del: octet_less)
  from this [of "?o 1 div 2" "?o 1 mod 2"]
  show "in_range (ipv4_of n (2 * k) 0 0) 15 a \<longleftrightarrow> 128 * ?o 0 + ?o 1 div 2 = 128 * n + k" by simp
  show "in_range (ipv4_of n m 0 0) 16 a \<longleftrightarrow> 256 * ?o 0 + ?o 1 = 256 * n + m"
    using less by (intro in_range_block [where r = "ipv4_of 0 0 (?o 2) (?o 3)"])
      (simp_all add: unat_octets ipv4_of_def del: octet_less)
  show "in_range (ipv4_of n m k 0) 24 a \<longleftrightarrow> 65536 * ?o 0 + 256 * ?o 1 + ?o 2 = 65536 * n + 256 * m + k"
    using less by (intro in_range_block [where r = "ipv4_of 0 0 0 (?o 3)"])
      (simp_all add: unat_octets ipv4_of_def del: octet_less)
  have "in_range (ipv4_of (16 * n) 0 0 0) 4 a \<longleftrightarrow> h = n" if "?o 0 = 16 * h + l" "l < 16" for h l
    using less that by (intro in_range_block [where r = "ipv4_of l (?o 1) (?o 2) (?o 3)"])
      (simp_all add: unat_octets ipv4_of_def algebra_simps del: octet_less)
  from this [of "?o 0 div 16" "?o 0 mod 16"]
  show "in_range (ipv4_of (16 * n) 0 0 0) 4 a \<longleftrightarrow> ?o 0 div 16 = n" by simp
qed

lemma base_pair_eq:
  fixes x y n m c :: nat
  assumes "y < c" "m < c"
  shows "c * x + y = c * n + m \<longleftrightarrow> x = n \<and> y = m"
proof
  assume eq: "c * x + y = c * n + m"
  have "(c * x + y) div c = x" "(c * x + y) mod c = y" "(c * n + m) div c = n" "(c * n + m) mod c = m"
    using assms by simp_all
  with eq show "x = n \<and> y = m" by metis
qed simp

lemmas octet_pair_eq = base_pair_eq [of _ 256]

lemma div_eq_block: "0 < d \<Longrightarrow> y div d = k \<longleftrightarrow> k * d \<le> y \<and> y < k * d + (d :: nat)"
  using block_iff [of "y mod d" d k "y div d"] by simp

lemma octet_triple_eq:
  fixes x y z n m k :: nat
  assumes "y < 256" "m < 256" "z < 256" "k < 256"
  shows "65536 * x + 256 * y + z = 65536 * n + 256 * m + k \<longleftrightarrow> x = n \<and> y = m \<and> z = k"
  using octet_pair_eq [OF assms(3,4), of "256 * x + y" "256 * n + m"] octet_pair_eq [OF assms(1,2), of x n]
  by (simp add: algebra_simps)

lemma special_networks_octets:
  "list_ex (\<lambda>(n, p). in_range n p a) special_ipv4_networks \<longleftrightarrow>
     (let first = octet a 0; second = octet a 1; third = octet a 2
      in first \<in> {0, 10, 127} \<or> first \<ge> 224 \<or>
         (first = 100 \<and> 64 \<le> second \<and> second \<le> 127) \<or> (first = 169 \<and> second = 254) \<or>
         (first = 172 \<and> 16 \<le> second \<and> second \<le> 31) \<or> (first = 192 \<and> second = 168) \<or>
         (first = 198 \<and> (second = 18 \<or> second = 19)) \<or>
         (first = 192 \<and> second = 0 \<and> third = 2) \<or> (first = 198 \<and> second = 51 \<and> third = 100) \<or>
         (first = 203 \<and> second = 0 \<and> third = 113))"
proof -
  let ?f = "octet a 0" and ?s = "octet a 1" and ?t = "octet a 2"
  have s: "?f < 256" "?s < 256" "?t < 256" by simp_all
  have "?s div 64 < 4" "?s div 16 < 16" "?s div 2 < 128"
    using s(2) by (simp_all add: less_mult_imp_div_less)
  then have shared: "in_range (ipv4_of 100 64 0 0) 10 a \<longleftrightarrow> ?f = 100 \<and> 64 \<le> ?s \<and> ?s < 128"
    and ten_rfc: "in_range (ipv4_of 172 16 0 0) 12 a \<longleftrightarrow> ?f = 172 \<and> 16 \<le> ?s \<and> ?s < 32"
    and bench: "in_range (ipv4_of 198 18 0 0) 15 a \<longleftrightarrow> ?f = 198 \<and> 18 \<le> ?s \<and> ?s < 20"
    using in_range_octets(2) [of 100 1 a] base_pair_eq [of "?s div 64" 4 1 ?f 100]
      in_range_octets(3) [of 172 1 a] base_pair_eq [of "?s div 16" 16 1 ?f 172]
      in_range_octets(4) [of 198 9 a] base_pair_eq [of "?s div 2" 128 9 ?f 198]
    by (simp_all add: div_eq_block)
  have bounds: "?s \<le> 127 \<longleftrightarrow> ?s < 128" "?s \<le> 31 \<longleftrightarrow> ?s < 32" "?s = 18 \<or> ?s = 19 \<longleftrightarrow> 18 \<le> ?s \<and> ?s < 20"
    by linarith+
  have "x div 16 = 14 \<longleftrightarrow> 224 \<le> x \<and> x < 240" "x div 16 = 15 \<longleftrightarrow> 240 \<le> x \<and> x < 256" for x :: nat
    by (simp_all add: div_eq_block)
  then have multicast: "in_range (ipv4_of 224 0 0 0) 4 a \<longleftrightarrow> 224 \<le> ?f \<and> ?f < 240"
    and reserved: "in_range (ipv4_of 240 0 0 0) 4 a \<longleftrightarrow> 240 \<le> ?f"
    using in_range_octets(7) [of 14 a] in_range_octets(7) [of 15 a] s(1) by simp_all
  have link: "in_range (ipv4_of 169 254 0 0) 16 a \<longleftrightarrow> ?f = 169 \<and> ?s = 254"
    and home: "in_range (ipv4_of 192 168 0 0) 16 a \<longleftrightarrow> ?f = 192 \<and> ?s = 168"
    unfolding in_range_octets(5) by (rule octet_pair_eq; simp)+
  have doc: "in_range (ipv4_of 192 0 2 0) 24 a \<longleftrightarrow> ?f = 192 \<and> ?s = 0 \<and> ?t = 2"
    "in_range (ipv4_of 198 51 100 0) 24 a \<longleftrightarrow> ?f = 198 \<and> ?s = 51 \<and> ?t = 100"
    "in_range (ipv4_of 203 0 113 0) 24 a \<longleftrightarrow> ?f = 203 \<and> ?s = 0 \<and> ?t = 113"
    unfolding in_range_octets(6) by (rule octet_triple_eq; simp)+
  have high: "224 \<le> ?f \<longleftrightarrow> (224 \<le> ?f \<and> ?f < 240) \<or> 240 \<le> ?f" by linarith
  have special: "list_ex (\<lambda>(n, p). in_range n p a) special_ipv4_networks \<longleftrightarrow>
      in_range (ipv4_of 0 0 0 0) 8 a \<or> in_range (ipv4_of 10 0 0 0) 8 a \<or> in_range (ipv4_of 100 64 0 0) 10 a \<or>
      in_range (ipv4_of 127 0 0 0) 8 a \<or> in_range (ipv4_of 169 254 0 0) 16 a \<or>
      in_range (ipv4_of 172 16 0 0) 12 a \<or> in_range (ipv4_of 192 0 2 0) 24 a \<or>
      in_range (ipv4_of 192 168 0 0) 16 a \<or> in_range (ipv4_of 198 18 0 0) 15 a \<or>
      in_range (ipv4_of 198 51 100 0) 24 a \<or> in_range (ipv4_of 203 0 113 0) 24 a \<or>
      in_range (ipv4_of 224 0 0 0) 4 a \<or> in_range (ipv4_of 240 0 0 0) 4 a"
    by (simp add: special_ipv4_networks_def)
  show ?thesis
    unfolding special shared ten_rfc bench multicast reserved link home doc in_range_octets(1)
      Let_def insert_iff empty_iff
    using bounds high by argo
qed

text \<open>
  C20. The filter for resolved upstream addresses refuses exactly the special-purpose IPv4 networks:
  an address is allowed if and only if it lies in none of them, where of \<open>192.0.0.0/24\<close> only the two
  anycast addresses 9 and 10 are allowed. An IPv4 address written as an IPv4-mapped or
  IPv4-compatible IPv6 address gets the verdict of the IPv4 address, so the IPv6 form is no way
  around the filter.
\<close>

theorem dns_filter_networks:
  "(stream_dns_resolved_address_allowed (V4 a) \<longleftrightarrow>
      \<not> list_ex (\<lambda>(n, p). in_range n p a) special_ipv4_networks \<and>
      (in_range (ipv4_of 192 0 0 0) 24 a \<longrightarrow> unat a = ipv4_of 192 0 0 9 \<or> unat a = ipv4_of 192 0 0 10)) \<and>
   (to_ipv4 b = Some v \<longrightarrow>
      stream_dns_resolved_address_allowed (V6 b) = stream_dns_resolved_address_allowed (V4 v))"
proof -
  let ?f = "octet a 0" and ?s = "octet a 1" and ?t = "octet a 2" and ?q = "octet a 3"
  have less: "?f < 256" "?s < 256" "?t < 256" "?q < 256" by simp_all
  have ietf: "in_range (ipv4_of 192 0 0 0) 24 a \<longleftrightarrow> ?f = 192 \<and> ?s = 0 \<and> ?t = 0"
    unfolding in_range_octets(6) by (rule octet_triple_eq; simp)
  have nine: "unat a = ipv4_of 192 0 0 d \<longleftrightarrow> ?q = d" if "?f = 192" "?s = 0" "?t = 0" for d
    using that unfolding unat_octets [of a] by (simp add: ipv4_of_def)
  have v4: "stream_dns_resolved_ipv4_address_allowed a \<longleftrightarrow>
      \<not> list_ex (\<lambda>(n, p). in_range n p a) special_ipv4_networks \<and>
      (?f = 192 \<and> ?s = 0 \<and> ?t = 0 \<longrightarrow> ?q = 9 \<or> ?q = 10)"
  proof -
    have high: "(224 \<le> ?f \<and> ?f \<le> 239) \<or> ?f \<ge> 240 \<longleftrightarrow> ?f \<ge> 224" "?f = 255 \<Longrightarrow> ?f \<ge> 224"
      by linarith+
    then show ?thesis
      unfolding special_networks_octets stream_dns_resolved_ipv4_address_allowed_def Let_def insert_iff empty_iff
      by argo
  qed
  have "stream_dns_resolved_ipv6_address_allowed b = stream_dns_resolved_ipv4_address_allowed v"
    if "to_ipv4 b = Some v"
    using that by (simp add: stream_dns_resolved_ipv6_address_allowed_def)
  then show ?thesis
    unfolding stream_dns_resolved_address_allowed.simps v4 ietf using nine by blast
qed

theorem dns_filter_networks_witness:
  "to_ipv4 0xFFFF0A000001 = Some 0x0A000001 \<and>
   \<not> stream_dns_resolved_address_allowed (V6 0xFFFF0A000001) \<and>
   \<not> stream_dns_resolved_address_allowed (V4 0x0A000001)"
proof -
  have to: "to_ipv4 0xFFFF0A000001 = Some 0x0A000001" by code_simp
  have "list_ex (\<lambda>(n, p). in_range n p 0x0A000001) special_ipv4_networks"
    by (simp add: special_ipv4_networks_def in_range_def ipv4_of_def)
  with dns_filter_networks [of "0x0A000001" "0xFFFF0A000001" "0x0A000001"] to show ?thesis by simp
qed

end
