(* ===== verification/Config_Net.thy ===== *)
theory Config_Net
  imports Http_Lib Net_Display
begin

text \<open>
  \<open>crates/fluxheim-config/src/config_net.rs\<close>: host names, authorities and trusted proxy networks as
  the configuration and the header code validate them.
\<close>

section \<open>Characters and trimming of the standard library\<close>

text \<open>
  \<open>char::is_control\<close> holds of the C0 controls, of DEL and of the C1 controls, which UTF-8 writes as
  the byte \<open>0xC2\<close> followed by one of \<open>0x80 .. 0x9F\<close>.
\<close>

fun any_control :: "string \<Rightarrow> bool" where
  "any_control [] = False"
| "any_control (c # s) \<longleftrightarrow>
     byte c < 32 \<or> byte c = 127 \<or> (byte c = 0xC2 \<and> s \<noteq> [] \<and> byte_in 0x80 0x9F (hd s))
     \<or> any_control s"

fun any_whitespace :: "string \<Rightarrow> bool" where
  "any_whitespace [] = False"
| "any_whitespace (c # s) \<longleftrightarrow> 0 < ws_head (c # s) \<or> any_whitespace s"

definition trim_end_matches :: "(char \<Rightarrow> bool) \<Rightarrow> string \<Rightarrow> string" where
  "trim_end_matches p s = rev (dropWhile p (rev s))"

definition trim_matches :: "(char \<Rightarrow> bool) \<Rightarrow> string \<Rightarrow> string" where
  "trim_matches p s = trim_end_matches p (dropWhile p s)"

definition rsplit_once :: "char \<Rightarrow> string \<Rightarrow> (string \<times> string) option" where
  "rsplit_once d s = map_option (\<lambda>(a, b). (rev b, rev a)) (split_once d (rev s))"

definition is_unspecified :: "ip_addr \<Rightarrow> bool" where
  "is_unspecified ip = (case ip of V4 a \<Rightarrow> a = 0 | V6 a \<Rightarrow> a = 0)"

definition is_loopback :: "ip_addr \<Rightarrow> bool" where
  "is_loopback ip = (case ip of V4 a \<Rightarrow> unat a div 2 ^ 24 = 127 | V6 a \<Rightarrow> a = 1)"

text \<open>\<open>SocketAddr::from_str\<close>; the scope of an IPv6 literal is read and does not show in the address.\<close>

definition read_port :: "string \<Rightarrow> (nat \<times> string) option" where
  "read_port s = (case read_char (CHR '':'') s of
       None \<Rightarrow> None
     | Some r \<Rightarrow> read_number is_ascii_digit digit_value 10 (length r) True 65536 r)"

definition skip_scope_id :: "string \<Rightarrow> string" where
  "skip_scope_id s = (case read_char (CHR ''%'') s of
       None \<Rightarrow> s
     | Some r \<Rightarrow> (case read_number is_ascii_digit digit_value 10 (length r) True (2 ^ 32) r of
          None \<Rightarrow> s | Some (_, r') \<Rightarrow> r'))"

definition read_socket_addr_v4 :: "string \<Rightarrow> ((ip_addr \<times> nat) \<times> string) option" where
  "read_socket_addr_v4 s = (case read_ipv4_addr s of
       None \<Rightarrow> None
     | Some (a, r) \<Rightarrow> map_option (\<lambda>(p, r'). ((V4 a, p), r')) (read_port r))"

definition read_socket_addr_v6 :: "string \<Rightarrow> ((ip_addr \<times> nat) \<times> string) option" where
  "read_socket_addr_v6 s = (case read_char (CHR ''['') s of
       None \<Rightarrow> None
     | Some r \<Rightarrow> (case read_ipv6_addr r of
          None \<Rightarrow> None
        | Some (a, r1) \<Rightarrow> (case read_char (CHR '']'') (skip_scope_id r1) of
             None \<Rightarrow> None
           | Some r2 \<Rightarrow> map_option (\<lambda>(p, r'). ((V6 a, p), r')) (read_port r2))))"

definition parse_socket_addr :: "string \<Rightarrow> (ip_addr \<times> nat) option" where
  "parse_socket_addr s =
     parse_with (\<lambda>s. case read_socket_addr_v4 s of Some r \<Rightarrow> Some r | None \<Rightarrow> read_socket_addr_v6 s) s"

section \<open>Host names\<close>

definition dns_label_valid :: "string \<Rightarrow> bool" where
  "dns_label_valid label \<longleftrightarrow>
     \<not> (label = [] \<or> length label > 63 \<or> starts_with ''-'' label \<or> ends_with ''-'' label
        \<or> \<not> list_all (\<lambda>c. is_ascii_alphanumeric c \<or> c = CHR ''-'') label)"

definition valid_dns_hostname :: "string \<Rightarrow> bool" where
  "valid_dns_hostname host =
     (let host = trim_end_matches (\<lambda>c. c = CHR ''.'') host
      in if host = [] \<or> length host > 253 \<or> CHR ''%'' \<in> set host then False
         else list_all dns_label_valid (split_on (CHR ''.'') host)
           \<and> \<not> list_all is_ascii_digit (last (split_on (CHR ''.'') host)))"

definition valid_port_suffix :: "string \<Rightarrow> bool" where
  "valid_port_suffix rest =
     (case strip_prefix '':'' rest of
        None \<Rightarrow> False
      | Some p \<Rightarrow> p \<noteq> [] \<and> parse_u16 p \<noteq> None)"

definition host_forbidden :: "char \<Rightarrow> bool" where
  "host_forbidden c \<longleftrightarrow>
     c = CHR ''*'' \<or> c = CHR ''/'' \<or> c = CHR 0x5C \<or> c = CHR ''?'' \<or> c = CHR ''#'' \<or> c = CHR ''@''"

definition strip_host_port :: "string \<Rightarrow> string" where
  "strip_host_port host =
     (case rsplit_once (CHR '':'') host of
        None \<Rightarrow> host
      | Some (candidate, p) \<Rightarrow>
          if CHR '':'' \<notin> set candidate \<and> candidate \<noteq> [] \<and> parse_u16 p \<noteq> None
          then trim_end_matches (\<lambda>c. c = CHR ''.'') candidate
          else host)"

definition normalize_host :: "string \<Rightarrow> string option" where
  "normalize_host raw =
     (let host = trim_end_matches (\<lambda>c. c = CHR ''.'') (trim raw)
      in if host = [] \<or> list_ex host_forbidden host \<or> any_whitespace host \<or> any_control host then None
         else case strip_prefix ''['' host of
            Some stripped \<Rightarrow>
              (case split_once (CHR '']'') stripped of
                 None \<Rightarrow> None
               | Some (addr, rest) \<Rightarrow>
                   if rest \<noteq> [] \<and> \<not> valid_port_suffix rest then None
                   else Some (to_ascii_lowercase addr))
          | None \<Rightarrow>
              (let name = strip_host_port host
               in if name = [] \<or> starts_with ''.'' name then None
                  else if parse_ip name = None \<and> \<not> valid_dns_hostname name then None
                  else Some (to_ascii_lowercase name)))"

definition normalize_host_pattern :: "string \<Rightarrow> string option" where
  "normalize_host_pattern raw =
     (let host = trim raw
      in case strip_prefix ''*.'' host of
           Some sfx \<Rightarrow>
             (case normalize_host sfx of
                None \<Rightarrow> None
              | Some n \<Rightarrow> if CHR '':'' \<in> set n then None else Some (''*.'' @ n))
         | None \<Rightarrow> normalize_host host)"

section \<open>Authorities\<close>

definition split_host_port :: "string \<Rightarrow> (string \<times> nat) option" where
  "split_host_port authority =
     (case rsplit_once (CHR '':'') authority of
        None \<Rightarrow> None
      | Some (host, p) \<Rightarrow>
          if trim host = [] \<or> trim p = [] then None
          else (case parse_u16 p of
             None \<Rightarrow> None
           | Some n \<Rightarrow>
               if n = 0 then None
               else (let host = trim_matches (\<lambda>c. c = CHR ''['' \<or> c = CHR '']'') host
                     in if trim host = [] \<or> CHR ''/'' \<in> set host then None else Some (host, n))))"

definition upstream_host :: "string \<Rightarrow> string option" where
  "upstream_host authority =
     (case parse_socket_addr authority of
        Some (ip, _) \<Rightarrow> Some (display_ip ip)
      | None \<Rightarrow> map_option fst (split_host_port authority))"

definition valid_authority :: "string \<Rightarrow> bool" where
  "valid_authority authority \<longleftrightarrow>
     parse_socket_addr authority \<noteq> None \<or>
     (case split_host_port authority of
        None \<Rightarrow> False
      | Some (host, _) \<Rightarrow> parse_ip host \<noteq> None \<or> normalize_host host \<noteq> None)"

definition valid_u16_port :: "string \<Rightarrow> bool" where
  "valid_u16_port p = (case parse_u16 p of None \<Rightarrow> False | Some n \<Rightarrow> n \<noteq> 0)"

definition valid_http_authority_port_tail :: "string \<Rightarrow> bool" where
  "valid_http_authority_port_tail tail =
     (case strip_prefix '':'' tail of None \<Rightarrow> False | Some p \<Rightarrow> valid_u16_port p)"

definition valid_http_host :: "string \<Rightarrow> bool" where
  "valid_http_host host \<longleftrightarrow> parse_ip host \<noteq> None \<or> valid_dns_hostname host"

definition valid_http_authority :: "string \<Rightarrow> bool" where
  "valid_http_authority authority =
     (if starts_with ''['' authority then
        (case str_find (CHR '']'') authority of
           None \<Rightarrow> False
         | Some e \<Rightarrow>
             if e \<le> 1 then False
             else (let tail = drop (e + 1) authority
                   in tail = [] \<or> valid_http_authority_port_tail tail))
      else (case rsplit_once (CHR '':'') authority of
              None \<Rightarrow> valid_http_host authority
            | Some (host, p) \<Rightarrow> valid_http_host host \<and> valid_u16_port p))"

definition http_authority_host :: "string \<Rightarrow> string option" where
  "http_authority_host authority =
     (if CHR ''@'' \<in> set authority then None
      else if starts_with ''['' authority then
        (case str_find (CHR '']'') authority of
           None \<Rightarrow> None
         | Some e \<Rightarrow>
             (let tail = drop (e + 1) authority
              in if tail \<noteq> [] \<and> \<not> valid_http_authority_port_tail tail then None
                 else Some (drop 1 (take e authority))))
      else (case rsplit_once (CHR '':'') authority of
              Some (host, p) \<Rightarrow>
                if CHR '':'' \<in> set host \<or> \<not> valid_u16_port p then None else Some host
            | None \<Rightarrow> Some authority))"

definition http_authority_is_loopback :: "string \<Rightarrow> bool" where
  "http_authority_is_loopback authority =
     (case http_authority_host authority of
        None \<Rightarrow> False
      | Some host \<Rightarrow>
          eq_ignore_ascii_case host ''localhost'' \<or>
          (case parse_ip host of None \<Rightarrow> False | Some ip \<Rightarrow> is_loopback ip))"

definition http_authority_is_numeric_loopback :: "string \<Rightarrow> bool" where
  "http_authority_is_numeric_loopback authority =
     (case http_authority_host authority of
        None \<Rightarrow> False | Some host \<Rightarrow> host = ''127.0.0.1'' \<or> host = ''::1'')"

definition valid_upstream_alias :: "string \<Rightarrow> bool" where
  "valid_upstream_alias alias \<longleftrightarrow>
     alias \<noteq> [] \<and> length alias \<le> 64 \<and>
     list_all (\<lambda>c. is_ascii_alphanumeric c \<or> c = CHR ''.'' \<or> c = CHR ''-'' \<or> c = CHR ''_'') alias"

section \<open>Trusted proxies\<close>

definition valid_ip_matcher :: "string \<Rightarrow> bool" where
  "valid_ip_matcher raw =
     (let value = trim raw
      in if value = [] \<or> any_whitespace value then False
         else case split_once (CHR ''/'') value of
            None \<Rightarrow> parse_ip value \<noteq> None
          | Some (address, p) \<Rightarrow>
              (case parse_ip address of
                 None \<Rightarrow> False
               | Some ip \<Rightarrow>
                   (case parse_u8 p of
                      None \<Rightarrow> False
                    | Some n \<Rightarrow> (case ip of V4 _ \<Rightarrow> n \<le> 32 | V6 _ \<Rightarrow> n \<le> 128))))"

definition trusted_proxy_has_safe_scope :: "string \<Rightarrow> bool" where
  "trusted_proxy_has_safe_scope raw =
     (let value = trim raw
      in case split_once (CHR ''/'') value of
           None \<Rightarrow> (case parse_ip value of None \<Rightarrow> False | Some ip \<Rightarrow> \<not> is_unspecified ip)
         | Some (address, p) \<Rightarrow>
             (case parse_ip address of
                None \<Rightarrow> False
              | Some ip \<Rightarrow>
                  (case parse_u8 p of
                     None \<Rightarrow> False
                   | Some n \<Rightarrow>
                       if is_unspecified ip then False
                       else (case ip of V4 _ \<Rightarrow> n \<ge> 8 | V6 _ \<Rightarrow> n \<ge> 29))))"

definition valid_trusted_proxy :: "string \<Rightarrow> bool" where
  "valid_trusted_proxy value \<longleftrightarrow> valid_ip_matcher value \<and> trusted_proxy_has_safe_scope value"

definition trusted_proxy_ipv6_prefix_broader_than_32 :: "string \<Rightarrow> nat option" where
  "trusted_proxy_ipv6_prefix_broader_than_32 raw =
     (case split_once (CHR ''/'') (trim raw) of
        None \<Rightarrow> None
      | Some (address, p) \<Rightarrow>
          (case parse_ip address of
             None \<Rightarrow> None
           | Some ip \<Rightarrow>
               (case parse_u8 p of
                  None \<Rightarrow> None
                | Some n \<Rightarrow>
                    (case ip of V4 _ \<Rightarrow> None | V6 _ \<Rightarrow> if n < 32 then Some n else None))))"

end
