(* ===== verification/Config_Header.thy ===== *)
theory Config_Header
  imports Config_Net "HOL-Library.RBT" "HOL-Library.List_Lexorder" "HOL-Library.Char_ord"
begin

text \<open>
  \<open>crates/fluxheim-config/src/config_header_validation.rs\<close>, \<open>config_header.rs\<close> and
  \<open>config_header_response.rs\<close>: validation and merging of header mutations and of response rewriting
  rules. A \<open>BTreeMap<String, V>\<close> is a red-black tree keyed by byte strings in lexicographic order.
\<close>

type_synonym 'v btree_map = "(string, 'v) rbt"

section \<open>Errors, values and rules\<close>

datatype header_config_error =
    InvalidHeaderName string string
  | InvalidHeaderValue string string
  | InvalidHeaderMutationLength string string nat
  | InvalidHeaderTemplate string string string
  | UnsafeTlsHeaderAppend string string
  | ConflictingHeaderAdd string string
  | InvalidResponseHeaderValue string

type_synonym checked = "(unit, header_config_error) result"

datatype header_values = One string | Many "string list"

fun header_values_iter :: "header_values \<Rightarrow> string list" where
  "header_values_iter (One v) = [v]"
| "header_values_iter (Many vs) = vs"

fun header_values_len :: "header_values \<Rightarrow> nat" where
  "header_values_len (One v) = 1"
| "header_values_len (Many vs) = length vs"

fun header_values_is_empty :: "header_values \<Rightarrow> bool" where
  "header_values_is_empty (One v) = (v = [])"
| "header_values_is_empty (Many vs) = (vs = [])"

definition header_values_extend :: "header_values \<Rightarrow> header_values \<Rightarrow> header_values" where
  "header_values_extend self extra = Many (header_values_iter self @ header_values_iter extra)"

record rewrite_rule =
  rule_from :: string
  rule_to :: string

record header_rewrite =
  location_rules :: "rewrite_rule list"
  refresh_rules :: "rewrite_rule list"
  cookie_domain :: "rewrite_rule list"
  cookie_path :: "rewrite_rule list"

definition MAX_HEADER_MUTATION_NAMES :: nat where "MAX_HEADER_MUTATION_NAMES = 128"
definition MAX_HEADER_APPEND_VALUES :: nat where "MAX_HEADER_APPEND_VALUES = 32"
definition MAX_RESPONSE_HEADER_REWRITE_RULES :: nat where "MAX_RESPONSE_HEADER_REWRITE_RULES = 32"
definition MAX_ROUTE_REGEX_CAPTURE_VALUES :: nat where "MAX_ROUTE_REGEX_CAPTURE_VALUES = 16"
definition MAX_ROUTE_REGEX_CAPTURE_NAME_BYTES :: nat where "MAX_ROUTE_REGEX_CAPTURE_NAME_BYTES = 64"

text \<open>A loop whose body may return an error early.\<close>

fun try_each :: "('a \<Rightarrow> (unit, 'e) result) \<Rightarrow> 'a list \<Rightarrow> (unit, 'e) result" where
  "try_each f [] = Ok ()"
| "try_each f (x # xs) = and_then (f x) (\<lambda>_. try_each f xs)"

section \<open>Names, values and templates\<close>

definition valid_http_header_name :: "string \<Rightarrow> bool" where
  "valid_http_header_name name \<longleftrightarrow> name \<noteq> [] \<and> list_all http_token_byte name"

definition header_value_contains_disallowed_control :: "string \<Rightarrow> bool" where
  "header_value_contains_disallowed_control v \<longleftrightarrow> list_ex (\<lambda>c. byte_in 0 0x1F c \<or> byte c = 0x7F) v"

definition validate_header_name :: "string \<Rightarrow> string \<Rightarrow> checked" where
  "validate_header_name field name =
     (if trim name \<noteq> name \<or> \<not> valid_http_header_name name then Err (InvalidHeaderName field name)
      else Ok ())"

definition validate_optional_header_value :: "string \<Rightarrow> string option \<Rightarrow> checked" where
  "validate_optional_header_value field v =
     (case v of
        None \<Rightarrow> Ok ()
      | Some v \<Rightarrow>
          if trim v = [] \<or> header_value_contains_disallowed_control v
          then Err (InvalidResponseHeaderValue field) else Ok ())"

definition valid_route_regex_capture_variable :: "string \<Rightarrow> bool" where
  "valid_route_regex_capture_variable v \<longleftrightarrow>
     (case parse_u64 v of None \<Rightarrow> False | Some i \<Rightarrow> i < MAX_ROUTE_REGEX_CAPTURE_VALUES)
     \<or> (length v \<le> MAX_ROUTE_REGEX_CAPTURE_NAME_BYTES
        \<and> (v \<noteq> [] \<and> (is_ascii_upper (hd v) \<or> is_ascii_lower (hd v) \<or> hd v = CHR ''_''))
        \<and> list_all (\<lambda>c. is_ascii_alphanumeric c \<or> c = CHR ''_'') v)"

definition valid_dynamic_header_variable :: "string \<Rightarrow> bool" where
  "valid_dynamic_header_variable v \<longleftrightarrow>
     v \<in> {''host'', ''remote_addr'', ''scheme'', ''uri'', ''path'', ''query'', ''request_id'',
       ''tls.cipher'', ''tls.version'', ''tls.client_cert_organization'', ''tls.client_cert_serial'',
       ''tls.client_cert_sha256''}
     \<or> (case strip_prefix ''route.regex.'' v of
          None \<Rightarrow> False | Some c \<Rightarrow> valid_route_regex_capture_variable c)
     \<or> (case strip_prefix ''http.'' v of None \<Rightarrow> False | Some n \<Rightarrow> valid_http_header_name n)"

lemma split_once_shorter: "split_once d s = Some (a, b) \<Longrightarrow> length b < length s"
  by (auto simp: split_once_eq_Some)

text \<open>
  \<open>rest.find('{')\<close> with the slice after it is \<open>split_once\<close>; the loop goes on with what follows the
  closing brace.
\<close>

function validate_dynamic_header_template :: "string \<Rightarrow> string \<Rightarrow> string \<Rightarrow> checked" where
  "validate_dynamic_header_template field name rest =
     (case split_once (CHR ''{'') rest of
        None \<Rightarrow>
          (case split_once (CHR ''}'') rest of
             Some (before, _) \<Rightarrow> Err (InvalidHeaderTemplate field name before)
           | None \<Rightarrow> Ok ())
      | Some (_, after_open) \<Rightarrow>
          (case split_once (CHR ''}'') after_open of
             None \<Rightarrow> Err (InvalidHeaderTemplate field name after_open)
           | Some (v, after_close) \<Rightarrow>
               if \<not> valid_dynamic_header_variable v then Err (InvalidHeaderTemplate field name v)
               else validate_dynamic_header_template field name after_close))"
  by pat_completeness auto
termination
  by (relation "measure (\<lambda>(field, name, rest). length rest)")
    (auto dest!: split_once_shorter)

declare validate_dynamic_header_template.simps [simp del]

function header_value_uses_tls_template :: "string \<Rightarrow> bool" where
  "header_value_uses_tls_template rest =
     (case split_once (CHR ''{'') rest of
        None \<Rightarrow> False
      | Some (_, after_open) \<Rightarrow>
          (case split_once (CHR ''}'') after_open of
             None \<Rightarrow> False
           | Some (v, after_close) \<Rightarrow>
               if starts_with ''tls.'' v then True else header_value_uses_tls_template after_close))"
  by pat_completeness auto
termination
  by (relation "measure length") (auto dest!: split_once_shorter)

declare header_value_uses_tls_template.simps [simp del]

definition validate_header_mutation_value :: "string \<Rightarrow> string \<Rightarrow> string \<Rightarrow> checked" where
  "validate_header_mutation_value field name v =
     (if trim v = [] \<or> header_value_contains_disallowed_control v
      then Err (InvalidHeaderValue field name)
      else validate_dynamic_header_template field name v)"

definition validate_header_mutation_len :: "string \<Rightarrow> string \<Rightarrow> nat \<Rightarrow> nat \<Rightarrow> checked" where
  "validate_header_mutation_len field operation len max_len =
     (if len > max_len then Err (InvalidHeaderMutationLength field operation max_len) else Ok ())"

section \<open>Mutations\<close>

definition btree_len :: "'v btree_map \<Rightarrow> nat" where
  "btree_len m = length (RBT.entries m)"

definition validate_header_mutations ::
  "string \<Rightarrow> string list \<Rightarrow> string btree_map \<Rightarrow> header_values btree_map \<Rightarrow> checked" where
  "validate_header_mutations field unset set_map append_map =
     and_then (validate_header_mutation_len field ''unset'' (length unset) MAX_HEADER_MUTATION_NAMES) (\<lambda>_.
     and_then (validate_header_mutation_len field ''set'' (btree_len set_map) MAX_HEADER_MUTATION_NAMES) (\<lambda>_.
     and_then (validate_header_mutation_len field ''append'' (btree_len append_map) MAX_HEADER_MUTATION_NAMES) (\<lambda>_.
     and_then (try_each (validate_header_name field) unset) (\<lambda>_.
     and_then (try_each (\<lambda>(name, v).
         and_then (validate_header_name field name) (\<lambda>_. validate_header_mutation_value field name v))
       (RBT.entries set_map)) (\<lambda>_.
     try_each (\<lambda>(name, vs).
         and_then (validate_header_name field name) (\<lambda>_.
         and_then (validate_header_mutation_len field ''append values'' (header_values_len vs)
           MAX_HEADER_APPEND_VALUES) (\<lambda>_.
         try_each (validate_header_mutation_value field name) (header_values_iter vs))))
       (RBT.entries append_map))))))"

definition validate_no_tls_header_append :: "string \<Rightarrow> header_values btree_map \<Rightarrow> checked" where
  "validate_no_tls_header_append field append_map =
     try_each (\<lambda>(name, vs).
         if list_ex header_value_uses_tls_template (header_values_iter vs)
         then Err (UnsafeTlsHeaderAppend field name) else Ok ())
       (RBT.entries append_map)"

fun validate_alias_names :: "string \<Rightarrow> string list \<Rightarrow> string list \<Rightarrow> checked" where
  "validate_alias_names field seen [] = Ok ()"
| "validate_alias_names field seen (name # names) =
     (if to_ascii_lowercase name \<in> set seen then Err (ConflictingHeaderAdd field name)
      else validate_alias_names field (to_ascii_lowercase name # seen) names)"

definition validate_header_add_aliases ::
  "string \<Rightarrow> string btree_map \<Rightarrow> string btree_map \<Rightarrow> string btree_map \<Rightarrow> checked" where
  "validate_header_add_aliases field set_map add_map operations_add =
     validate_alias_names field (map to_ascii_lowercase (RBT.keys set_map))
       (RBT.keys add_map @ RBT.keys operations_add)"

definition combined_header_unset :: "string list \<Rightarrow> string list \<Rightarrow> string list \<Rightarrow> string list" where
  "combined_header_unset unset removed operations_remove = unset @ removed @ operations_remove"

definition btree_extend :: "'v btree_map \<Rightarrow> 'v btree_map \<Rightarrow> 'v btree_map" where
  "btree_extend m extra = foldl (\<lambda>m (k, v). RBT.insert k v m) m (RBT.entries extra)"

definition combined_header_set ::
  "string btree_map \<Rightarrow> string btree_map \<Rightarrow> string btree_map \<Rightarrow> string btree_map" where
  "combined_header_set set_map add_map operations_add =
     btree_extend (btree_extend set_map add_map) operations_add"

definition merge_append_entry ::
  "header_values btree_map \<Rightarrow> string \<times> header_values \<Rightarrow> header_values btree_map" where
  "merge_append_entry m e =
     (case e of (name, vs) \<Rightarrow>
        (case RBT.lookup m name of
           Some existing \<Rightarrow> RBT.insert name (header_values_extend existing vs) m
         | None \<Rightarrow> RBT.insert name vs m))"

definition merge_header_mutations ::
  "string list \<Rightarrow> string btree_map \<Rightarrow> header_values btree_map \<Rightarrow>
   string list \<Rightarrow> string btree_map \<Rightarrow> header_values btree_map \<Rightarrow>
   string list \<times> string btree_map \<times> header_values btree_map" where
  "merge_header_mutations unset set_map append_map overlay_unset overlay_set overlay_append =
     (unset @ overlay_unset, btree_extend set_map overlay_set,
      foldl merge_append_entry append_map (RBT.entries overlay_append))"

section \<open>Rewriting rules\<close>

definition has_dotdot :: "string \<Rightarrow> bool" where
  "has_dotdot v \<longleftrightarrow> list_ex (\<lambda>i. v ! i = CHR ''.'' \<and> v ! Suc i = CHR ''.'') [0..<length v - 1]"

definition validate_response_header_rewrite_endpoint ::
  "string \<Rightarrow> string \<Rightarrow> string \<Rightarrow> string \<Rightarrow> checked" where
  "validate_response_header_rewrite_endpoint field header side v =
     (let valid_prefix = starts_with ''http://'' v \<or> starts_with ''https://'' v \<or> starts_with ''/'' v
      in if v = [] \<or> length v > 2048 \<or> \<not> valid_prefix \<or> starts_with ''//'' v
            \<or> header_value_contains_disallowed_control v
         then Err (InvalidHeaderValue field (header @ ''.'' @ side)) else Ok ())"

definition validate_cookie_domain_rewrite_endpoint :: "string \<Rightarrow> string \<Rightarrow> string \<Rightarrow> checked" where
  "validate_cookie_domain_rewrite_endpoint field side v =
     (if trim v = [] \<or> trim v \<noteq> v \<or> length v > 255 \<or> starts_with ''-'' v \<or> ends_with ''-'' v
         \<or> has_dotdot v \<or> list_ex (\<lambda>c. \<not> (is_ascii_alphanumeric c \<or> c = CHR ''-'' \<or> c = CHR ''.'')) v
      then Err (InvalidHeaderValue field (''cookie_domain.'' @ side)) else Ok ())"

definition validate_cookie_path_rewrite_endpoint :: "string \<Rightarrow> string \<Rightarrow> string \<Rightarrow> checked" where
  "validate_cookie_path_rewrite_endpoint field side v =
     (if v = [] \<or> length v > 2048 \<or> \<not> starts_with ''/'' v \<or> starts_with ''//'' v
         \<or> list_ex (\<lambda>c. byte_in 0 0x20 c \<or> byte c = 0x7F \<or> c = CHR '';'') v
      then Err (InvalidHeaderValue field (''cookie_path.'' @ side)) else Ok ())"

text \<open>
  The loop of the three rule validators: both endpoints of each rule, then the \<open>from\<close> side, as the
  validator compares it, against the ones seen before.
\<close>

fun validate_rule_list ::
  "(string \<Rightarrow> string \<Rightarrow> checked) \<Rightarrow> (string \<Rightarrow> string) \<Rightarrow> header_config_error \<Rightarrow> string list \<Rightarrow>
   rewrite_rule list \<Rightarrow> checked" where
  "validate_rule_list endpoint norm conflict seen [] = Ok ()"
| "validate_rule_list endpoint norm conflict seen (rule # rules) =
     and_then (endpoint ''from'' (rule_from rule)) (\<lambda>_.
     and_then (endpoint ''to'' (rule_to rule)) (\<lambda>_.
     if norm (rule_from rule) \<in> set seen then Err conflict
     else validate_rule_list endpoint norm conflict (norm (rule_from rule) # seen) rules))"

definition validate_response_header_rewrite_rules ::
  "string \<Rightarrow> string \<Rightarrow> rewrite_rule list \<Rightarrow> checked" where
  "validate_response_header_rewrite_rules field header rules =
     and_then (validate_header_mutation_len field header (length rules) MAX_RESPONSE_HEADER_REWRITE_RULES) (\<lambda>_.
       validate_rule_list (validate_response_header_rewrite_endpoint field header) (\<lambda>s. s)
         (ConflictingHeaderAdd field (header @ ''.from'')) [] rules)"

definition validate_cookie_domain_rewrite_rules :: "string \<Rightarrow> rewrite_rule list \<Rightarrow> checked" where
  "validate_cookie_domain_rewrite_rules field rules =
     and_then (validate_header_mutation_len field ''cookie_domain'' (length rules) MAX_RESPONSE_HEADER_REWRITE_RULES) (\<lambda>_.
       validate_rule_list (validate_cookie_domain_rewrite_endpoint field) to_ascii_lowercase
         (ConflictingHeaderAdd field ''cookie_domain.from'') [] rules)"

definition validate_cookie_path_rewrite_rules :: "string \<Rightarrow> rewrite_rule list \<Rightarrow> checked" where
  "validate_cookie_path_rewrite_rules field rules =
     and_then (validate_header_mutation_len field ''cookie_path'' (length rules) MAX_RESPONSE_HEADER_REWRITE_RULES) (\<lambda>_.
       validate_rule_list (validate_cookie_path_rewrite_endpoint field) (\<lambda>s. s)
         (ConflictingHeaderAdd field ''cookie_path.from'') [] rules)"

definition header_rewrite_validate :: "header_rewrite \<Rightarrow> string \<Rightarrow> checked" where
  "header_rewrite_validate self field =
     and_then (validate_response_header_rewrite_rules field ''location'' (location_rules self)) (\<lambda>_.
     and_then (validate_response_header_rewrite_rules field ''refresh'' (refresh_rules self)) (\<lambda>_.
     and_then (validate_cookie_domain_rewrite_rules field (cookie_domain self)) (\<lambda>_.
     validate_cookie_path_rewrite_rules field (cookie_path self))))"

definition header_rewrite_merge :: "header_rewrite \<Rightarrow> header_rewrite \<Rightarrow> header_rewrite" where
  "header_rewrite_merge self overlay =
     \<lparr> location_rules = location_rules self @ location_rules overlay,
       refresh_rules = refresh_rules self @ refresh_rules overlay,
       cookie_domain = cookie_domain self @ cookie_domain overlay,
       cookie_path = cookie_path self @ cookie_path overlay \<rparr>"

section \<open>What validation guarantees\<close>

lemma try_each_Ok: "try_each f xs = Ok u \<longleftrightarrow> (\<forall>x \<in> set xs. f x = Ok ())"
  by (induction xs) (auto simp: result_simps)

lemma validate_rule_list_Ok:
  "validate_rule_list endpoint norm conflict seen rules = Ok u \<longleftrightarrow>
     (\<forall>rule \<in> set rules. endpoint ''from'' (rule_from rule) = Ok () \<and> endpoint ''to'' (rule_to rule) = Ok ())
     \<and> distinct (map (norm \<circ> rule_from) rules)
     \<and> set (map (norm \<circ> rule_from) rules) \<inter> set seen = {}"
  by (induction rules arbitrary: seen) (auto simp: result_simps)

lemma cookie_rules_no_semicolon:
  assumes "header_rewrite_validate rewrite field = Ok u"
    and "rule \<in> set (cookie_domain rewrite @ cookie_path rewrite)"
  shows "CHR '';'' \<notin> set (rule_to rule)"
proof -
  have dom: "CHR '';'' \<notin> set v" if "validate_cookie_domain_rewrite_endpoint field side v = Ok ()" for side v
    using that
    by (auto simp: validate_cookie_domain_rewrite_endpoint_def list_ex_iff is_ascii_alphanumeric_def
        is_ascii_digit_def is_ascii_upper_def is_ascii_lower_def byte_in_def byte_def split: if_splits)
  have path: "CHR '';'' \<notin> set v" if "validate_cookie_path_rewrite_endpoint field side v = Ok ()" for side v
    using that by (auto simp: validate_cookie_path_rewrite_endpoint_def list_ex_iff split: if_splits)
  have "rule \<in> set (cookie_domain rewrite) \<Longrightarrow>
      validate_cookie_domain_rewrite_endpoint field ''to'' (rule_to rule) = Ok ()"
    "rule \<in> set (cookie_path rewrite) \<Longrightarrow>
      validate_cookie_path_rewrite_endpoint field ''to'' (rule_to rule) = Ok ()"
    using assms(1)
    by (auto simp: header_rewrite_validate_def validate_cookie_domain_rewrite_rules_def
        validate_cookie_path_rewrite_rules_def result_simps validate_rule_list_Ok)
  with assms(2) dom path show ?thesis by auto
qed

end
