(* ===== verification/Headers.thy ===== *)
theory Headers
  imports Config_Header
begin

text \<open>
  \<open>crates/fluxheim-headers/src\<close>: the client address of a forwarded chain and the \<open>Forwarded\<close> value
  (\<open>client_ip.rs\<close>), the hop-by-hop request headers (\<open>hop_by_hop.rs\<close>) and the rewriting of response
  header values (\<open>lib.rs\<close>).
\<close>

section \<open>Client addresses (\<open>client_ip.rs\<close>)\<close>

abbreviation QUOTE :: char where "QUOTE \<equiv> CHR 0x22"
abbreviation BACKSLASH :: char where "BACKSLASH \<equiv> CHR 0x5C"

definition unquote_hop :: "string \<Rightarrow> string option" where
  "unquote_hop value =
     (if starts_with [QUOTE] value \<and> ends_with [QUOTE] value then
        (case strip_prefix [QUOTE] value of
           None \<Rightarrow> None
         | Some v \<Rightarrow> (case strip_suffix [QUOTE] v of
              None \<Rightarrow> None
            | Some inner \<Rightarrow> if inner = [] \<or> QUOTE \<in> set inner then None else Some inner))
      else if \<not> starts_with [QUOTE] value \<and> \<not> ends_with [QUOTE] value then Some value
      else None)"

definition parse_x_forwarded_for_ip :: "string \<Rightarrow> ip_addr option" where
  "parse_x_forwarded_for_ip raw =
     (let value = trim raw
      in if value = [] then None
         else case unquote_hop value of
            None \<Rightarrow> None
          | Some value \<Rightarrow>
              (case Option.bind (strip_prefix ''['' value) (strip_suffix '']'') of
                 Some inner \<Rightarrow>
                   (case parse_ip inner of Some (V6 a) \<Rightarrow> Some (V6 a) | _ \<Rightarrow> None)
               | None \<Rightarrow> parse_ip value))"

text \<open>The loop over the hops, from the nearest proxy to the origin of the request.\<close>

fun client_ip_walk ::
  "(ip_addr \<Rightarrow> bool) \<Rightarrow> ip_addr \<Rightarrow> ip_addr option \<Rightarrow> string list \<Rightarrow> ip_addr" where
  "client_ip_walk trusted direct_ip last_valid_hop [] =
     (case last_valid_hop of None \<Rightarrow> direct_ip | Some hop \<Rightarrow> hop)"
| "client_ip_walk trusted direct_ip last_valid_hop (raw_hop # hops) =
     (case parse_x_forwarded_for_ip raw_hop of
        None \<Rightarrow> direct_ip
      | Some hop \<Rightarrow>
          if \<not> trusted hop then hop
          else client_ip_walk trusted direct_ip
            (case last_valid_hop of None \<Rightarrow> Some hop | Some h \<Rightarrow> Some h) hops)"

definition effective_client_ip ::
  "ip_addr \<Rightarrow> bool \<Rightarrow> string option \<Rightarrow> (ip_addr \<Rightarrow> bool) option \<Rightarrow> ip_addr" where
  "effective_client_ip direct_ip trusted_direct_peer original_x_forwarded_for trusted_proxy_matcher =
     (if \<not> trusted_direct_peer then direct_ip
      else case original_x_forwarded_for of
         None \<Rightarrow> direct_ip
       | Some xff \<Rightarrow>
           (case trusted_proxy_matcher of
              None \<Rightarrow> direct_ip
            | Some trusted \<Rightarrow>
                client_ip_walk trusted direct_ip None (rev (split_on (CHR '','') xff))))"

datatype forwarded_proto = Http | Https

fun proto_as_str :: "forwarded_proto \<Rightarrow> string" where
  "proto_as_str Http = ''http''"
| "proto_as_str Https = ''https''"

definition valid_forwarded_host :: "string \<Rightarrow> bool" where
  "valid_forwarded_host host \<longleftrightarrow>
     host \<noteq> [] \<and> is_ascii host \<and> trim host = host \<and>
     \<not> list_ex (\<lambda>c. byte c < 32 \<or> byte c = 127 \<or> c = CHR '' '' \<or> c = QUOTE \<or> c = BACKSLASH
           \<or> c = CHR '';'' \<or> c = CHR '','') host \<and>
     normalize_host host \<noteq> None \<and>
     (starts_with ''['' host \<or> length (filter (\<lambda>c. c = CHR '':'') host) \<le> 1)"

definition forwarded_ip :: "ip_addr \<Rightarrow> string" where
  "forwarded_ip client_ip =
     (case client_ip of
        V4 a \<Rightarrow> display_ipv4 a
      | V6 a \<Rightarrow> [QUOTE] @ ''['' @ display_ipv6 a @ '']'' @ [QUOTE])"

fun escape_quoted :: "string \<Rightarrow> string" where
  "escape_quoted [] = []"
| "escape_quoted (c # s) =
     (if c = BACKSLASH \<or> c = QUOTE then BACKSLASH # c # escape_quoted s else c # escape_quoted s)"

definition quote_forwarded_value :: "string \<Rightarrow> string" where
  "quote_forwarded_value value = [QUOTE] @ escape_quoted value @ [QUOTE]"

definition build_forwarded_header ::
  "ip_addr \<Rightarrow> string option \<Rightarrow> forwarded_proto \<Rightarrow> string option" where
  "build_forwarded_header client_ip host proto =
     (if (case host of None \<Rightarrow> False | Some h \<Rightarrow> \<not> valid_forwarded_host h) then None
      else Some (''for='' @ forwarded_ip client_ip
        @ (case host of None \<Rightarrow> [] | Some h \<Rightarrow> '';host='' @ quote_forwarded_value h)
        @ '';proto='' @ proto_as_str proto))"

section \<open>Hop-by-hop headers (\<open>hop_by_hop.rs\<close>)\<close>

definition HOP_BY_HOP_REQUEST_HEADERS :: "string list" where
  "HOP_BY_HOP_REQUEST_HEADERS =
     [''connection'', ''keep-alive'', ''proxy-connection'', ''proxy-authenticate'',
      ''proxy-authorization'', ''te'', ''trailer'', ''transfer-encoding'', ''upgrade'']"

record hop_by_hop_policy =
  connection_listed_headers :: "string list"
  preserve_chunked_framing :: bool

definition split_trim_values :: "string list \<Rightarrow> string list" where
  "split_trim_values values = map trim (concat (map (split_on (CHR '','')) values))"

definition hop_by_hop_request_header_policy :: "string list \<Rightarrow> string list \<Rightarrow> hop_by_hop_policy" where
  "hop_by_hop_request_header_policy connection_values transfer_encoding_values =
     (let codings = filter (\<lambda>v. v \<noteq> []) (split_trim_values transfer_encoding_values)
      in \<lparr> connection_listed_headers =
             map to_ascii_lowercase (filter http_token_valid (split_trim_values connection_values)),
           preserve_chunked_framing =
             (codings \<noteq> [] \<and> eq_ignore_ascii_case (last codings) ''chunked'') \<rparr>)"

section \<open>Header values (\<open>lib.rs\<close>)\<close>

definition SPOOFABLE_CLIENT_IP_HEADERS :: "string list" where
  "SPOOFABLE_CLIENT_IP_HEADERS =
     [''x-forwarded-for'', ''x-real-ip'', ''forwarded'', ''x-forwarded-host'', ''x-forwarded-proto'',
      ''cf-connecting-ip'', ''true-client-ip'', ''x-client-ip'', ''client-ip'',
      ''x-cluster-client-ip'', ''fastly-client-ip'', ''x-envoy-external-address'',
      ''x-original-forwarded-for'', ''x-azure-clientip'', ''fly-client-ip'', ''x-proxyuser-ip'',
      ''x-forwarded-client-cert'']"

record route_regex_captures =
  numbered :: "string option list"
  named_captures :: "string \<rightharpoonup> string"

definition captures_variable :: "route_regex_captures \<Rightarrow> string \<Rightarrow> string option" where
  "captures_variable captures v =
     (case strip_prefix ''route.regex.'' v of
        None \<Rightarrow> None
      | Some key \<Rightarrow>
          if list_all is_ascii_digit key then
            (case parse_u64 key of
               None \<Rightarrow> None
             | Some i \<Rightarrow> if i < length (numbered captures) then numbered captures ! i else None)
          else named_captures captures key)"

definition join_header_values_with_separator :: "string list \<Rightarrow> string \<Rightarrow> string option" where
  "join_header_values_with_separator values sep =
     (case values of
        [] \<Rightarrow> None
      | first # rest \<Rightarrow> Some (foldl (\<lambda>joined value. joined @ sep @ value) first rest))"

definition join_header_values :: "string list \<Rightarrow> string option" where
  "join_header_values values = join_header_values_with_separator values '', ''"

fun rewrite_header_prefix :: "string \<Rightarrow> rewrite_rule list \<Rightarrow> string option" where
  "rewrite_header_prefix value [] = None"
| "rewrite_header_prefix value (rule # rules) =
     (if response_rewrite_prefix_matches value (rule_from rule)
      then Some (rule_to rule @ drop (length (rule_from rule)) value)
      else rewrite_header_prefix value rules)"

definition is_blank :: "char \<Rightarrow> bool" where
  "is_blank c \<longleftrightarrow> c = CHR '' '' \<or> c = TAB"

text \<open>\<open>skip_blanks s cursor\<close>: the loop that advances a cursor over spaces and tabs.\<close>

definition skip_blanks :: "string \<Rightarrow> nat \<Rightarrow> nat" where
  "skip_blanks s cursor = cursor + length (takeWhile is_blank (drop cursor s))"

definition get_byte :: "string \<Rightarrow> nat \<Rightarrow> char option" where
  "get_byte s i = (if i < length s then Some (s ! i) else None)"

text \<open>\<open>refresh_url_at s index\<close>: the body of the loop of \<open>find_refresh_url_start\<close> at one index.\<close>

definition refresh_url_at :: "string \<Rightarrow> nat \<Rightarrow> nat option" where
  "refresh_url_at s index =
     (if (index = 0 \<or> s ! (index - 1) = CHR '';'' \<or> is_blank (s ! (index - 1)))
         \<and> eq_ignore_ascii_case (take 3 (drop index s)) ''url'' then
        (let cursor = skip_blanks s (index + 3)
         in if get_byte s cursor = Some (CHR ''='') then Some (skip_blanks s (cursor + 1)) else None)
      else None)"

function find_refresh_url_from :: "string \<Rightarrow> nat \<Rightarrow> nat option" where
  "find_refresh_url_from s index =
     (if index + 3 \<le> length s then
        (case refresh_url_at s index of
           Some cursor \<Rightarrow> Some cursor
         | None \<Rightarrow> find_refresh_url_from s (index + 1))
      else None)"
  by pat_completeness auto
termination
  by (relation "measure (\<lambda>(s, index). length s - index)") auto

declare find_refresh_url_from.simps [simp del]

definition find_refresh_url_start :: "string \<Rightarrow> nat option" where
  "find_refresh_url_start s = find_refresh_url_from s 0"

definition rewrite_refresh_url :: "string \<Rightarrow> rewrite_rule list \<Rightarrow> string option" where
  "rewrite_refresh_url value rules =
     (case find_refresh_url_start value of
        None \<Rightarrow> None
      | Some url_start \<Rightarrow>
          (let quote = (case get_byte value url_start of
                  Some c \<Rightarrow> if c = QUOTE \<or> c = CHR 0x27 then Some c else None
                | None \<Rightarrow> None);
               match_start = url_start + (if quote = None then 0 else 1);
               match_end = (case quote of
                  Some q \<Rightarrow> map_option (\<lambda>i. match_start + i) (str_find q (drop match_start value))
                | None \<Rightarrow> Some (length value))
           in case match_end of
                None \<Rightarrow> None
              | Some e \<Rightarrow>
                  map_option (\<lambda>url. take match_start value @ url @ drop e value)
                    (rewrite_header_prefix (drop match_start (take e value)) rules)))"

section \<open>Cookies (\<open>lib.rs\<close>)\<close>

definition cookie_attribute_value_start :: "string \<Rightarrow> string \<Rightarrow> nat option" where
  "cookie_attribute_value_start part attribute =
     (let cursor = skip_blanks part 0
      in if cursor + length attribute > length part
            \<or> \<not> eq_ignore_ascii_case (take (length attribute) (drop cursor part)) attribute
         then None
         else (let cursor = skip_blanks part (cursor + length attribute)
               in if get_byte part cursor \<noteq> Some (CHR ''='') then None
                  else Some (skip_blanks part (cursor + 1))))"

definition trim_cookie_attribute_ascii_whitespace :: "string \<Rightarrow> string" where
  "trim_cookie_attribute_ascii_whitespace value = trim_matches is_blank value"

definition normalize_cookie_attribute_value :: "string \<Rightarrow> string" where
  "normalize_cookie_attribute_value raw =
     (let value = trim_cookie_attribute_ascii_whitespace raw
      in case Option.bind (strip_prefix [QUOTE] value) (strip_suffix [QUOTE]) of
           Some inner \<Rightarrow> inner
         | None \<Rightarrow> value)"

definition strip_dot :: "string \<Rightarrow> string" where
  "strip_dot value = (case strip_prefix ''.'' value of Some v \<Rightarrow> v | None \<Rightarrow> value)"

definition normalized_cookie_domain :: "string \<Rightarrow> string" where
  "normalized_cookie_domain value = strip_dot (normalize_cookie_attribute_value value)"

fun match_cookie_domain :: "string \<Rightarrow> rewrite_rule list \<Rightarrow> string option" where
  "match_cookie_domain value [] = None"
| "match_cookie_domain value (rule # rules) =
     (if eq_ignore_ascii_case value (normalized_cookie_domain (rule_from rule))
      then Some (rule_to rule) else match_cookie_domain value rules)"

definition rewrite_cookie_domain :: "string \<Rightarrow> rewrite_rule list \<Rightarrow> string option" where
  "rewrite_cookie_domain normalized rules = match_cookie_domain (strip_dot normalized) rules"

definition rewrite_cookie_path :: "string \<Rightarrow> rewrite_rule list \<Rightarrow> string option" where
  "rewrite_cookie_path normalized rules = rewrite_header_prefix normalized rules"

definition rewrite_cookie_attribute ::
  "string \<Rightarrow> string \<Rightarrow> rewrite_rule list \<Rightarrow> (string \<Rightarrow> rewrite_rule list \<Rightarrow> string option)
    \<Rightarrow> string option" where
  "rewrite_cookie_attribute part attribute rules rewrite_value =
     (if rules = [] then None
      else case cookie_attribute_value_start part attribute of
         None \<Rightarrow> None
       | Some value_start \<Rightarrow>
           map_option (\<lambda>v. take value_start part @ v)
             (rewrite_value (normalize_cookie_attribute_value (drop value_start part)) rules))"

text \<open>One later segment of a cookie: its rewriting, when a rule applies to it.\<close>

definition rewrite_cookie_segment :: "header_rewrite \<Rightarrow> string \<Rightarrow> string option" where
  "rewrite_cookie_segment rewrite part =
     (case rewrite_cookie_attribute part ''domain'' (cookie_domain rewrite) rewrite_cookie_domain of
        Some next_segment \<Rightarrow> Some next_segment
      | None \<Rightarrow>
          rewrite_cookie_attribute part ''path'' (cookie_path rewrite) rewrite_cookie_path)"

fun rewrite_cookie_segments :: "header_rewrite \<Rightarrow> string list \<Rightarrow> string \<Rightarrow> bool \<Rightarrow> string \<times> bool" where
  "rewrite_cookie_segments rewrite [] rewritten changed = (rewritten, changed)"
| "rewrite_cookie_segments rewrite (part # parts) rewritten changed =
     (case rewrite_cookie_segment rewrite part of
        Some next_segment \<Rightarrow>
          rewrite_cookie_segments rewrite parts (rewritten @ '';'' @ next_segment) True
      | None \<Rightarrow>
          rewrite_cookie_segments rewrite parts (rewritten @ '';'' @ part) changed)"

definition rewrite_set_cookie_value :: "string \<Rightarrow> header_rewrite \<Rightarrow> string option" where
  "rewrite_set_cookie_value value rewrite =
     (case split_on (CHR '';'') value of
        [] \<Rightarrow> None
      | first # rest \<Rightarrow>
          (case rewrite_cookie_segments rewrite rest first False of
             (rewritten, changed) \<Rightarrow> if changed then Some rewritten else None))"

end
