(* ===== verification/Config_Net_Props.thy ===== *)
theory Config_Net_Props
  imports Config_Net "HOL-Library.Code_Target_Nat"
begin

text \<open>
  The normal form of host names: letter case, trailing dots and a port do not change the host a
  request names.
\<close>

section \<open>Trimming and splitting from the right\<close>

lemma starts_with_one: "starts_with [c] s \<longleftrightarrow> s \<noteq> [] \<and> hd s = c"
  by (cases s) (auto simp: starts_with_iff)

lemma ends_with_one: "ends_with [c] s \<longleftrightarrow> s \<noteq> [] \<and> last s = c"
  by (cases s rule: rev_cases) (auto simp: ends_with_iff suffix_def)

lemma set_trim_end_matches: "set (trim_end_matches p s) \<subseteq> set s"
  by (auto simp: trim_end_matches_def dest: set_dropWhileD)

lemma in_set_trim_end_matches:
  assumes "c \<in> set s"
  shows "c \<in> set (trim_end_matches p s) \<or> p c"
proof -
  have "c \<in> set (takeWhile p (rev s) @ dropWhile p (rev s))"
    using assms by (simp only: takeWhile_dropWhile_id set_rev)
  then have "c \<in> set (takeWhile p (rev s)) \<or> c \<in> set (dropWhile p (rev s))"
    by (simp only: set_append Un_iff)
  then show ?thesis unfolding trim_end_matches_def set_rev by (blast dest: set_takeWhileD)
qed

lemma trim_end_matches_fixed: "s = [] \<or> \<not> p (last s) \<Longrightarrow> trim_end_matches p s = s"
  by (cases s rule: rev_cases) (auto simp: trim_end_matches_def)

lemma trim_end_matches_idem [simp]: "trim_end_matches p (trim_end_matches p s) = trim_end_matches p s"
proof -
  have "dropWhile p (dropWhile p (rev s)) = dropWhile p (rev s)"
    by (metis dropWhile_eq_self_iff hd_dropWhile)
  then show ?thesis by (simp add: trim_end_matches_def)
qed

lemma rsplit_once_None: "rsplit_once d s = None \<longleftrightarrow> d \<notin> set s"
  by (simp add: rsplit_once_def split_once_eq_None)

lemma rsplit_once_append: "d \<notin> set b \<Longrightarrow> rsplit_once d (a @ d # b) = Some (a, b)"
  using split_once_eq_Some [of d "rev b @ d # rev a" "rev b" "rev a"]
  by (simp add: rsplit_once_def)

lemma split_on_map:
  assumes "\<And>c. c \<in> set s \<Longrightarrow> f c = d \<longleftrightarrow> c = d"
  shows "split_on d (map f s) = map (map f) (split_on d s)"
  using assms
proof (induction s)
  case (Cons c s)
  then have "split_on d (map f s) = map (map f) (split_on d s)" by simp
  then show ?case
    using Cons.prems [of c] by (cases "split_on d s") auto
qed simp

lemma trim_end_matches_map:
  "(\<And>c. c \<in> set s \<Longrightarrow> p (f c) \<longleftrightarrow> p c) \<Longrightarrow> trim_end_matches p (map f s) = map f (trim_end_matches p s)"
proof -
  assume "\<And>c. c \<in> set s \<Longrightarrow> p (f c) \<longleftrightarrow> p c"
  then have "dropWhile p (map f (rev s)) = map f (dropWhile p (rev s))"
    by (simp add: dropWhile_map o_def) (rule arg_cong [where f = "map f"], rule dropWhile_cong, auto)
  then show ?thesis by (simp add: trim_end_matches_def rev_map)
qed

section \<open>DNS names\<close>

definition dns_char :: "char \<Rightarrow> bool" where
  "dns_char c \<longleftrightarrow> is_ascii_alphanumeric c \<or> c = CHR ''-'' \<or> c = CHR ''.''"

lemmas dns_char_defs =
  dns_char_def is_ascii_alphanumeric_def is_ascii_digit_def is_ascii_upper_def is_ascii_lower_def
  byte_in_def

lemma dns_char_range: "dns_char c \<Longrightarrow> 33 \<le> byte c \<and> byte c < 127"
  by (auto simp: dns_char_defs byte_def)

lemma set_split_on_union: "set s \<subseteq> insert d (\<Union> (set ` set (split_on d s)))"
proof (induction s)
  case (Cons c s)
  then show ?case by (cases "split_on d s") auto
qed simp

lemma valid_dns_hostname_chars:
  assumes "valid_dns_hostname h"
  shows "list_all dns_char h"
proof -
  let ?t = "trim_end_matches (\<lambda>c. c = CHR ''.'') h"
  have labels: "list_all dns_label_valid (split_on (CHR ''.'') ?t)"
    using assms by (simp add: valid_dns_hostname_def Let_def split: if_splits)
  have "dns_char c" if "c \<in> set l" "l \<in> set (split_on (CHR ''.'') ?t)" for c l
    using that labels by (auto simp: list_all_iff dns_label_valid_def dns_char_def)
  then have t: "set ?t \<subseteq> Collect dns_char"
    using set_split_on_union [of ?t "CHR ''.''"] by (auto simp: dns_char_def)
  have "c \<in> set ?t \<or> c = CHR ''.''" if "c \<in> set h" for c
    using in_set_trim_end_matches [OF that] .
  moreover have "dns_char (CHR ''.'')" by (simp add: dns_char_def)
  ultimately show ?thesis
    using t unfolding list_all_iff by blast
qed

lemma printable_plain:
  assumes "list_all (\<lambda>c. 33 \<le> byte c \<and> byte c < 127) s"
  shows "no_ws s" "\<not> any_control s" "\<not> any_whitespace s"
proof -
  have no_ws: "no_ws s" if "list_all (\<lambda>c. 33 \<le> byte c \<and> byte c < 127) s" for s
    using that by (fastforce simp: no_ws_def list_all_iff)
  from assms show "no_ws s" by (rule no_ws)
  from assms show "\<not> any_control s" by (induction s) auto
  from assms show "\<not> any_whitespace s"
  proof (induction s)
    case (Cons c s)
    from no_ws [OF Cons.prems] Cons show ?case by (simp add: no_ws_head)
  qed simp
qed

text \<open>The characters of a DNS name with a port.\<close>

lemma host_chars_plain:
  assumes "list_all (\<lambda>c. dns_char c \<or> c = CHR '':'') s"
  shows "no_ws s" "\<not> list_ex host_forbidden s" "\<not> any_control s" "\<not> any_whitespace s"
    "strip_prefix ''['' s = None"
proof -
  have "33 \<le> byte c \<and> byte c < 127" if "dns_char c \<or> c = CHR '':''" for c
    using that dns_char_range by (auto simp: byte_def)
  then have "list_all (\<lambda>c. 33 \<le> byte c \<and> byte c < 127) s"
    using assms by (simp add: list_all_iff)
  then show "no_ws s" "\<not> any_control s" "\<not> any_whitespace s" by (rule printable_plain)+
  have "\<forall>c \<in> {CHR ''*'', CHR ''/'', CHR 0x5C, CHR ''?'', CHR ''#'', CHR ''@'', CHR ''[''}. \<not> dns_char c \<and> c \<noteq> CHR '':''"
    by code_simp
  then have "\<not> host_forbidden c \<and> c \<noteq> CHR ''[''" if "dns_char c \<or> c = CHR '':''" for c
    using that by (auto simp: host_forbidden_def)
  then have *: "\<forall>c \<in> set s. \<not> host_forbidden c \<and> c \<noteq> CHR ''[''"
    using assms by (simp add: list_all_iff)
  then show "\<not> list_ex host_forbidden s" by (simp add: list_ex_iff)
  from * show "strip_prefix ''['' s = None" by (cases s) auto
qed

lemma dns_char_no_colon: "list_all dns_char s \<Longrightarrow> CHR '':'' \<notin> set s"
  by (auto simp: list_all_iff dns_char_defs byte_def)

lemma dns_chars_host: "list_all dns_char s \<Longrightarrow> list_all (\<lambda>c. dns_char c \<or> c = CHR '':'') s"
  by (simp add: list_all_iff)

lemma dns_trimmed_name:
  assumes "valid_dns_hostname h"
  defines "t \<equiv> trim_end_matches (\<lambda>c. c = CHR ''.'') h"
  shows "t \<noteq> []" "\<not> starts_with ''.'' t" "valid_dns_hostname t" "list_all dns_char t"
proof -
  show "t \<noteq> []" "valid_dns_hostname t"
    using assms by (auto simp: valid_dns_hostname_def Let_def split: if_splits)
  then show "list_all dns_char t" by (simp add: valid_dns_hostname_chars)
  show "\<not> starts_with ''.'' t"
  proof
    assume "starts_with ''.'' t"
    then obtain r where "t = CHR ''.'' # r" by (auto simp: starts_with_iff prefix_def)
    then have "[] \<in> set (split_on (CHR ''.'') t)" by simp
    then show False
      using assms by (auto simp: valid_dns_hostname_def Let_def dns_label_valid_def list_all_iff
          split: if_splits)
  qed
qed

lemma normalize_host_dns:
  assumes "valid_dns_hostname h"
  shows "normalize_host h = Some (to_ascii_lowercase (trim_end_matches (\<lambda>c. c = CHR ''.'') h))"
proof -
  let ?t = "trim_end_matches (\<lambda>c. c = CHR ''.'') h"
  note t = dns_trimmed_name [OF assms]
  note plain = host_chars_plain [OF dns_chars_host [OF t(4)]]
  have "trim h = h"
    using host_chars_plain(1) [OF dns_chars_host [OF valid_dns_hostname_chars [OF assms]]]
    by (rule trim_no_ws)
  moreover have "strip_host_port ?t = ?t"
    using dns_char_no_colon [OF t(4)] rsplit_once_None [of "CHR '':''" ?t]
    by (simp add: strip_host_port_def)
  ultimately show ?thesis
    using t plain by (simp add: normalize_host_def)
qed

lemma normalize_host_dns_port:
  assumes "valid_dns_hostname h" and "p < 65536"
  shows "normalize_host (h @ '':'' @ dec_string p) =
    Some (to_ascii_lowercase (trim_end_matches (\<lambda>c. c = CHR ''.'') h))"
proof -
  let ?s = "h @ '':'' @ dec_string p"
  note t = dns_trimmed_name [OF assms(1)]
  note chars = valid_dns_hostname_chars [OF assms(1)]
  have digits: "list_all is_ascii_digit (dec_string p)" by (rule dec_string_digits)
  then have dec: "list_all dns_char (dec_string p)"
    by (auto simp: list_all_iff dns_char_def is_ascii_alphanumeric_def simp del: dec_string.simps)
  have "list_all (\<lambda>c. dns_char c \<or> c = CHR '':'') ?s"
    using dns_chars_host [OF dec] dns_chars_host [OF chars] by simp
  note plain = host_chars_plain [OF this]
  have "\<not> is_ascii_digit (CHR ''.'')" by code_simp
  then have "last (dec_string p) \<noteq> CHR ''.''"
    using digits last_in_set [OF dec_string_neq_Nil [of p]] by (metis list_all_iff)
  then have "trim_end_matches (\<lambda>c. c = CHR ''.'') ?s = ?s"
    by (intro trim_end_matches_fixed) (simp del: dec_string.simps)
  moreover have "strip_host_port ?s = trim_end_matches (\<lambda>c. c = CHR ''.'') h"
    using rsplit_once_append [OF dns_char_no_colon [OF dec], of h] dns_char_no_colon [OF chars] assms
    by (auto simp: strip_host_port_def parse_u16_def parse_unsigned_dec_string valid_dns_hostname_def
        trim_end_matches_def simp del: dec_string.simps)
  ultimately show ?thesis
    using plain t unfolding normalize_host_def Let_def trim_no_ws [OF plain(1)]
    by (simp del: dec_string.simps)
qed

lemma to_ascii_lower_cases:
  obtains "to_ascii_lower c = c" "\<not> is_ascii_upper c"
    | "is_ascii_upper c" "is_ascii_lower (to_ascii_lower c)"
  by (cases "is_ascii_upper c")
    (auto simp: to_ascii_lower_def is_ascii_upper_def is_ascii_lower_def byte_in_def)

lemma letter_facts:
  assumes "is_ascii_upper c \<or> is_ascii_lower c"
  shows "c \<noteq> CHR ''.''" "c \<noteq> CHR ''-''" "c \<noteq> CHR ''%''" "\<not> is_ascii_digit c" "is_ascii_alphanumeric c"
  using assms
  by (auto simp: is_ascii_upper_def is_ascii_lower_def is_ascii_digit_def is_ascii_alphanumeric_def
      byte_in_def byte_def)

lemma lower_facts:
  "to_ascii_lower c = CHR ''.'' \<longleftrightarrow> c = CHR ''.''" "to_ascii_lower c = CHR ''-'' \<longleftrightarrow> c = CHR ''-''"
  "to_ascii_lower c = CHR ''%'' \<longleftrightarrow> c = CHR ''%''"
  "is_ascii_digit (to_ascii_lower c) = is_ascii_digit c"
  "is_ascii_alphanumeric (to_ascii_lower c) = is_ascii_alphanumeric c"
  by (cases c rule: to_ascii_lower_cases; use letter_facts [of c] letter_facts [of "to_ascii_lower c"] in simp)+

lemma dns_label_lower: "dns_label_valid (map to_ascii_lower l) = dns_label_valid l"
proof (cases "l = []")
  case False
  then show ?thesis
    by (simp add: dns_label_valid_def starts_with_one ends_with_one hd_map last_map list.pred_map o_def
        lower_facts)
qed (simp add: dns_label_valid_def)

lemma valid_dns_hostname_lower: "valid_dns_hostname (to_ascii_lowercase h) = valid_dns_hostname h"
proof -
  have t: "trim_end_matches (\<lambda>c. c = CHR ''.'') (to_ascii_lowercase h) =
      to_ascii_lowercase (trim_end_matches (\<lambda>c. c = CHR ''.'') h)"
    unfolding to_ascii_lowercase_def by (rule trim_end_matches_map) (simp add: lower_facts)
  have s: "split_on (CHR ''.'') (to_ascii_lowercase x) = map to_ascii_lowercase (split_on (CHR ''.'') x)" for x
    unfolding to_ascii_lowercase_def by (rule split_on_map) (simp add: lower_facts)
  have pc: "CHR ''%'' \<in> set (to_ascii_lowercase x) \<longleftrightarrow> CHR ''%'' \<in> set x" for x
    by (induction x) (auto simp: to_ascii_lowercase_def lower_facts eq_commute [of "CHR ''%''"])
  have l: "dns_label_valid (to_ascii_lowercase x) = dns_label_valid x"
    "list_all is_ascii_digit (to_ascii_lowercase x) = list_all is_ascii_digit x"
    "to_ascii_lowercase x = [] \<longleftrightarrow> x = []" for x
    by (simp_all add: to_ascii_lowercase_def dns_label_lower list.pred_map o_def lower_facts)
  show ?thesis
    by (simp add: valid_dns_hostname_def Let_def t s pc l last_map list.pred_map o_def)
qed

text \<open>
  C25. A DNS name names the same host whatever its letter case, its trailing dots and its port: a
  request for \<open>name:port\<close> and one for \<open>name\<close> are normalised to the same key, which is itself a
  normal form.
\<close>

theorem normalize_host_canonical:
  assumes "valid_dns_hostname h" and "p < 65536"
  shows "\<exists>n. n = to_ascii_lowercase (trim_end_matches (\<lambda>c. c = CHR ''.'') h)
    \<and> normalize_host h = Some n \<and> normalize_host (to_ascii_lowercase h) = Some n
    \<and> normalize_host (h @ '':'' @ dec_string p) = Some n \<and> normalize_host n = Some n"
proof -
  let ?t = "trim_end_matches (\<lambda>c. c = CHR ''.'')"
  have l: "?t (to_ascii_lowercase x) = to_ascii_lowercase (?t x)" for x
    unfolding to_ascii_lowercase_def by (rule trim_end_matches_map) (simp add: lower_facts)
  have "valid_dns_hostname (to_ascii_lowercase (?t h))" "valid_dns_hostname (to_ascii_lowercase h)"
    using assms(1) dns_trimmed_name(3) by (simp_all add: valid_dns_hostname_lower)
  note n = this [THEN normalize_host_dns]
  show ?thesis
    using normalize_host_dns [OF assms(1)] normalize_host_dns_port [OF assms] n
    by (simp add: l del: dec_string.simps)
qed

theorem normalize_host_canonical_witness:
  "normalize_host (''WWW.Example.COM.'' @ '':'' @ dec_string 8443) = Some ''www.example.com''"
proof -
  have "valid_dns_hostname ''WWW.Example.COM.''"
    and n: "to_ascii_lowercase (trim_end_matches (\<lambda>c. c = CHR ''.'') ''WWW.Example.COM.'') = ''www.example.com''"
    by code_simp+
  from normalize_host_canonical [OF this(1), of 8443] show ?thesis
    by (simp add: n del: dec_string.simps append_Cons)
qed

end
