(* ===== verification/Headers_Props.thy ===== *)
theory Headers_Props
  imports Headers Config_Net_Props
begin

text \<open>
  Client addresses cannot be spoofed past an untrusted hop, the \<open>Forwarded\<close> value has exactly the
  fields it was built from, and response rewriting changes only what its rules name.
\<close>

section \<open>Client addresses\<close>

lemma client_ip_walk_trusted:
  assumes "\<And>p. p \<in> set hops \<Longrightarrow> \<exists>ip. parse_x_forwarded_for_ip p = Some ip \<and> trusted ip"
  shows "\<exists>l'. client_ip_walk trusted d l (hops @ rest) = client_ip_walk trusted d l' rest"
  using assms
proof (induction hops arbitrary: l)
  case (Cons p hops)
  obtain ip where "parse_x_forwarded_for_ip p = Some ip" "trusted ip"
    using Cons.prems [of p] by auto
  moreover have "\<exists>l'. client_ip_walk trusted d k (hops @ rest) = client_ip_walk trusted d l' rest" for k
    by (rule Cons.IH) (use Cons.prems in simp)
  ultimately show ?case by simp
next
  case Nil
  show ?case by (rule exI [of _ l]) simp
qed

lemma client_ip_walk_stop:
  assumes "\<And>ip. parse_x_forwarded_for_ip hop = Some ip \<Longrightarrow> \<not> trusted ip"
  shows "client_ip_walk trusted d l (hop # rest) =
    (case parse_x_forwarded_for_ip hop of None \<Rightarrow> d | Some ip \<Rightarrow> ip)"
  using assms by (auto split: option.splits)



section \<open>The \<open>Forwarded\<close> value\<close>

lemma escape_quoted_id: "QUOTE \<notin> set s \<Longrightarrow> BACKSLASH \<notin> set s \<Longrightarrow> escape_quoted s = s"
  by (induction s) auto

lemma address_char_not:
  assumes "list_all address_char s"
  shows "CHR '';'' \<notin> set s" "CHR '','' \<notin> set s" "QUOTE \<notin> set s" "CHR ''['' \<notin> set s" "CHR '']'' \<notin> set s"
  using assms
  by (auto simp: list_all_iff address_char_def is_ascii_hexdigit_def is_ascii_digit_def byte_in_def
      byte_def)

lemmas address_char_display_ipv6 =
  address_char_display_ip [of "V6 a", unfolded display_ip.simps] for a

lemma strip_suffix_append [simp]: "strip_suffix p (t @ p) = Some t"
  by (simp add: strip_suffix_eq_Some)

lemma unquote_hop_plain: "QUOTE \<notin> set s \<Longrightarrow> unquote_hop s = Some s"
  by (cases "s = []")
    (auto simp: unquote_hop_def starts_with_one ends_with_one dest: hd_in_set last_in_set)

lemma unquote_hop_quoted:
  "s \<noteq> [] \<Longrightarrow> QUOTE \<notin> set s \<Longrightarrow> unquote_hop ([QUOTE] @ s @ [QUOTE]) = Some s"
  using strip_suffix_append [of "[QUOTE]" s]
  by (simp add: unquote_hop_def starts_with_one ends_with_one)

lemma parse_forwarded_ip: "parse_x_forwarded_for_ip (forwarded_ip ip) = Some ip"
proof (cases ip)
  case (V4 a)
  note chars = address_char_display_ipv4 [of a]
  have "strip_prefix ''['' (display_ipv4 a) = None"
    using address_char_not(4) [OF chars] by (cases "display_ipv4 a") auto
  then show ?thesis
    using address_char_not(3) [OF chars] parse_ip_display [of ip] V4
    by (simp add: parse_x_forwarded_for_ip_def forwarded_ip_def trim_no_ws no_ws_address [OF chars]
        display_ipv4_neq_Nil unquote_hop_plain)
next
  case (V6 a)
  note chars = address_char_display_ipv6 [of a]
  have ws: "no_ws (forwarded_ip ip)"
    using no_ws_address [OF chars] by (simp add: V6 forwarded_ip_def no_ws_def byte_def)
  have q: "unquote_hop (forwarded_ip ip) = Some (''['' @ display_ipv6 a @ '']'')"
    using unquote_hop_quoted [of "''['' @ display_ipv6 a @ '']''"] address_char_not [OF chars]
    by (simp add: V6 forwarded_ip_def)
  have s: "Option.bind (strip_prefix ''['' (''['' @ display_ipv6 a @ '']'')) (strip_suffix '']'') =
      Some (display_ipv6 a)"
    by simp
  show ?thesis
    unfolding parse_x_forwarded_for_ip_def trim_no_ws [OF ws] Let_def q
    using s parse_ip_display [of ip] V6 by (simp add: forwarded_ip_def)
qed

text \<open>
  C22. A \<open>Forwarded\<close> value carries exactly the fields it was built from: split at its semicolons it
  is the \<open>for\<close>, the \<open>host\<close> when one was given, and the \<open>proto\<close> parameter, it has no comma that
  would start another element, and the \<open>for\<close> parameter reads back as the client address. The value
  is refused exactly when the host is not a valid forwarded host.
\<close>

theorem forwarded_header_fields:
  "case build_forwarded_header ip host proto of
     None \<Rightarrow> \<exists>h. host = Some h \<and> \<not> valid_forwarded_host h
   | Some value \<Rightarrow>
       split_on (CHR '';'') value =
         (''for='' @ forwarded_ip ip)
         # (case host of None \<Rightarrow> [] | Some h \<Rightarrow> [''host='' @ [QUOTE] @ h @ [QUOTE]])
         @ [''proto='' @ proto_as_str proto]
       \<and> CHR '','' \<notin> set value
       \<and> parse_x_forwarded_for_ip (forwarded_ip ip) = Some ip"
proof (cases "build_forwarded_header ip host proto")
  case None
  then show ?thesis by (auto simp: build_forwarded_header_def split: option.splits if_splits)
next
  case (Some header)
  define host_part where "host_part = (case host of None \<Rightarrow> [] | Some h \<Rightarrow> [''host='' @ [QUOTE] @ h @ [QUOTE]])"
  have host_ok: "CHR '';'' \<notin> set h" "CHR '','' \<notin> set h" "escape_quoted h = h" if "host = Some h" for h
    using Some that escape_quoted_id [of h]
    by (auto simp: build_forwarded_header_def valid_forwarded_host_def list_ex_iff split: if_splits)
  have for_ok: "CHR '';'' \<notin> set (forwarded_ip ip)" "CHR '','' \<notin> set (forwarded_ip ip)"
    using address_char_not [OF address_char_display_ipv4] address_char_not [OF address_char_display_ipv6]
    by (auto simp: forwarded_ip_def split: ip_addr.splits)
  have proto_ok: "CHR '';'' \<notin> set (proto_as_str proto)" "CHR '','' \<notin> set (proto_as_str proto)"
    by (cases proto; simp)+
  have v: "header = join_with '';'' ((''for='' @ forwarded_ip ip) # host_part @ [''proto='' @ proto_as_str proto])"
    using Some host_ok(3)
    by (auto simp: build_forwarded_header_def host_part_def quote_forwarded_value_def
        split: option.splits if_splits)
  have no_semi: "CHR '';'' \<notin> set x"
    if "x \<in> set ((''for='' @ forwarded_ip ip) # host_part @ [''proto='' @ proto_as_str proto])" for x
    using that for_ok proto_ok host_ok by (auto simp: host_part_def split: option.splits)
  have "split_on (CHR '';'') header =
      (''for='' @ forwarded_ip ip) # host_part @ [''proto='' @ proto_as_str proto]"
    unfolding v by (rule split_on_join) (use no_semi in auto)
  moreover have "CHR '','' \<notin> set header"
    using for_ok proto_ok host_ok by (auto simp: v host_part_def split: option.splits)
  ultimately show ?thesis
    using Some parse_forwarded_ip by (simp add: host_part_def)
qed

section \<open>Response rewriting\<close>

lemma prefix_matches_append:
  "response_rewrite_prefix_matches v p \<Longrightarrow> v = p @ drop (length p) v"
  by (auto simp: response_rewrite_prefix_matches_def starts_with_iff prefix_def split: if_splits)

lemma rewrite_header_prefix_find:
  "rewrite_header_prefix v rules =
     map_option (\<lambda>rule. rule_to rule @ drop (length (rule_from rule)) v)
       (List.find (\<lambda>rule. response_rewrite_prefix_matches v (rule_from rule)) rules)"
  by (induction rules) auto

lemma rewrite_header_prefix_Some:
  "rewrite_header_prefix v rules = Some w \<longleftrightarrow>
     (\<exists>i < length rules. response_rewrite_prefix_matches v (rule_from (rules ! i))
        \<and> (\<forall>j < i. \<not> response_rewrite_prefix_matches v (rule_from (rules ! j)))
        \<and> w = rule_to (rules ! i) @ drop (length (rule_from (rules ! i))) v)"
  unfolding rewrite_header_prefix_find map_option_eq_Some find_Some_iff by auto



section \<open>Cookies\<close>

definition apply_cookie_rewrite :: "header_rewrite \<Rightarrow> string \<Rightarrow> string" where
  "apply_cookie_rewrite rewrite part =
     (case rewrite_cookie_segment rewrite part of None \<Rightarrow> part | Some n \<Rightarrow> n)"

lemma rewrite_cookie_segments_eq:
  "rewrite_cookie_segments rewrite parts acc changed =
     (join_with '';'' (acc # map (apply_cookie_rewrite rewrite) parts),
      changed \<or> list_ex (\<lambda>part. rewrite_cookie_segment rewrite part \<noteq> None) parts)"
proof (induction parts arbitrary: acc changed)
  case (Cons part parts)
  show ?case
    by (cases "parts = []")
      (auto simp: Cons.IH apply_cookie_rewrite_def join_with_Cons split: option.splits)
qed simp

lemma set_normalize_cookie: "set (normalize_cookie_attribute_value v) \<subseteq> set v"
proof -
  have t: "set (trim_cookie_attribute_ascii_whitespace v) \<subseteq> set v"
    by (auto simp: trim_cookie_attribute_ascii_whitespace_def trim_matches_def trim_end_matches_def
        dest!: set_dropWhileD)
  have "set x \<subseteq> set y" if "Option.bind (strip_prefix [QUOTE] y) (strip_suffix [QUOTE]) = Some x" for x y
    using that by (auto simp: bind_eq_Some_conv strip_prefix_eq_Some strip_suffix_eq_Some)
  then show ?thesis
    using t by (auto simp: normalize_cookie_attribute_value_def Let_def split: option.splits)
qed

lemma match_cookie_domain_Some:
  "match_cookie_domain v rules = Some w \<Longrightarrow> \<exists>rule \<in> set rules. w = rule_to rule"
  by (induction rules) (auto split: if_splits)

lemma rewrite_cookie_segment_clean:
  assumes "rewrite_cookie_segment rewrite part = Some n" and "d \<notin> set part"
    and "\<And>rule. rule \<in> set (cookie_domain rewrite @ cookie_path rewrite) \<Longrightarrow> d \<notin> set (rule_to rule)"
  shows "d \<notin> set n"
proof -
  have attr: "d \<notin> set n" if "rewrite_cookie_attribute part a rules f = Some n"
    and f: "\<And>v w. f v rules = Some w \<Longrightarrow> d \<notin> set v \<Longrightarrow> d \<notin> set w" for a rules f
  proof -
    from that(1) obtain k w where "n = take k part @ w"
      and w: "f (normalize_cookie_attribute_value (drop k part)) rules = Some w"
      by (auto simp: rewrite_cookie_attribute_def split: if_splits option.splits)
    moreover have "d \<notin> set (normalize_cookie_attribute_value (drop k part))"
      using set_normalize_cookie [of "drop k part"] assms(2) by (auto dest: in_set_dropD)
    ultimately show ?thesis
      using f [OF w] assms(2) by (auto dest: in_set_takeD)
  qed
  have dom: "d \<notin> set w" if "rewrite_cookie_domain v (cookie_domain rewrite) = Some w" for v w
    using that assms(3) by (auto simp: rewrite_cookie_domain_def dest!: match_cookie_domain_Some)
  have path: "d \<notin> set w" if "rewrite_cookie_path v (cookie_path rewrite) = Some w" "d \<notin> set v" for v w
    using that assms(3)
    by (auto simp: rewrite_cookie_path_def rewrite_header_prefix_Some dest: in_set_dropD)
  from assms(1) consider
      "rewrite_cookie_attribute part ''domain'' (cookie_domain rewrite) rewrite_cookie_domain = Some n"
    | "rewrite_cookie_attribute part ''path'' (cookie_path rewrite) rewrite_cookie_path = Some n"
    by (auto simp: rewrite_cookie_segment_def split: option.splits)
  then show ?thesis
    using attr dom path by cases blast+
qed



end
