(* ===== verification/Storage_Bin.thy ===== *)
theory Storage_Bin
  imports Rust_Str "HOL-Library.RBT"
begin

text \<open>
  \<open>crates/fluxheim-cache/src/storage_bin_manifest.rs\<close> (layout and object locations) and
  \<open>storage_bin_alloc.rs\<close> (the map of free byte ranges of the bin files). A \<open>BTreeMap<u64, V>\<close> is a
  red-black tree, \<open>u64\<close> values are natural numbers with the checked and saturating operations of
  the prelude.
\<close>

section \<open>Errors, layout and locations\<close>

datatype storage_error_kind = InvalidData | InvalidInput | PermissionDenied | NotFound | OtherKind

datatype storage_error = StorageError storage_error_kind string

record storage_bin_layout =
  layout_root :: string
  layout_manifest_path :: string
  layout_data_dir :: string
  layout_bin_size_bytes :: nat
  layout_max_size_bytes :: nat
  layout_preallocate :: bool
  layout_max_open_bins :: nat

record object_location =
  loc_bin_id :: nat
  loc_offset :: nat
  loc_len :: nat

definition div_ceil :: "nat \<Rightarrow> nat \<Rightarrow> nat" where
  "div_ceil a b = a div b + (if a mod b > 0 then 1 else 0)"

definition max_bins :: "storage_bin_layout \<Rightarrow> nat" where
  "max_bins layout =
     (if layout_bin_size_bytes layout = 0 then 0
      else div_ceil (layout_max_size_bytes layout) (layout_bin_size_bytes layout))"

definition location_validate :: "object_location \<Rightarrow> nat \<Rightarrow> (object_location, storage_error) result" where
  "location_validate self bin_size =
     and_then (ok_or (checked_add (loc_offset self) (loc_len self))
         (StorageError InvalidData ''storage-bin object location overflows'')) (\<lambda>e.
       if loc_len self = 0 \<or> e > bin_size
       then Err (StorageError InvalidData ''storage-bin object location is outside its bin'')
       else Ok self)"

section \<open>The free map\<close>

record free_range =
  fr_offset :: nat
  fr_len :: nat

record free_map =
  bin_size_bytes :: nat
  max_size_bytes :: nat
  next_bin_id :: nat
  free :: "(nat, free_range list) rbt"

definition free_map_new :: "storage_bin_layout \<Rightarrow> free_map" where
  "free_map_new layout =
     \<lparr> bin_size_bytes = layout_bin_size_bytes layout, max_size_bytes = layout_max_size_bytes layout,
       next_bin_id = 0, free = RBT.empty \<rparr>"

definition bin_capacity :: "free_map \<Rightarrow> nat \<Rightarrow> nat option" where
  "bin_capacity m bin_id =
     (case checked_mul bin_id (bin_size_bytes m) of
        None \<Rightarrow> None
      | Some start \<Rightarrow>
          if start \<ge> max_size_bytes m then None
          else Some (min (bin_size_bytes m) (max_size_bytes m - start)))"

definition free_ranges :: "free_map \<Rightarrow> nat \<Rightarrow> free_range list" where
  "free_ranges m bin_id = (case RBT.lookup (free m) bin_id of None \<Rightarrow> [] | Some rs \<Rightarrow> rs)"

text \<open>One turn of the merging loop: the next range is joined to the last merged one or pushed.\<close>

definition merge_push :: "free_range list \<Rightarrow> free_range \<Rightarrow> free_range list" where
  "merge_push merged rng =
     (if merged \<noteq> [] \<and> fr_offset rng \<le> saturating_add (fr_offset (last merged)) (fr_len (last merged))
      then butlast merged @
        [(last merged)\<lparr>fr_len :=
           max (saturating_sub (saturating_add (fr_offset rng) (fr_len rng)) (fr_offset (last merged)))
             (fr_len (last merged))\<rparr>]
      else merged @ [rng])"

definition merge_ranges :: "free_range list \<Rightarrow> free_range list" where
  "merge_ranges ranges = foldl merge_push [] ranges"

definition insert_free_range :: "free_map \<Rightarrow> nat \<Rightarrow> free_range \<Rightarrow> (free_map, storage_error) result" where
  "insert_free_range m bin_id rng =
     (if fr_len rng = 0 then Ok m
      else case bin_capacity m bin_id of
         None \<Rightarrow> Err (StorageError InvalidInput
           ''storage-bin free range references a bin outside the configured cache budget'')
       | Some capacity \<Rightarrow>
           and_then (ok_or (checked_add (fr_offset rng) (fr_len rng))
               (StorageError InvalidInput ''storage-bin free range overflows'')) (\<lambda>e.
             if e > capacity
             then Err (StorageError InvalidInput ''storage-bin free range exceeds the bin capacity'')
             else Ok (m\<lparr>free := RBT.insert bin_id
               (merge_ranges (sort_key fr_offset (free_ranges m bin_id @ [rng]))) (free m)\<rparr>)))"

text \<open>The first bin, in key order, with a range of the wanted length, and the range's index.\<close>

fun find_fit :: "nat \<Rightarrow> (nat \<times> free_range list) list \<Rightarrow> (nat \<times> nat) option" where
  "find_fit len [] = None"
| "find_fit len ((bin_id, ranges) # bins) =
     (case position (\<lambda>rng. fr_len rng \<ge> len) ranges of
        Some index \<Rightarrow> Some (bin_id, index)
      | None \<Rightarrow> find_fit len bins)"

definition remove_at :: "nat \<Rightarrow> 'a list \<Rightarrow> 'a list" where
  "remove_at i xs = take i xs @ drop (Suc i) xs"

definition take_from_range :: "nat \<Rightarrow> nat \<Rightarrow> free_range list \<Rightarrow> free_range list" where
  "take_from_range len index ranges =
     (let rng = ranges ! index
      in if fr_len rng = len then remove_at index ranges
         else ranges[index := \<lparr> fr_offset = saturating_add (fr_offset rng) len,
                                fr_len = saturating_sub (fr_len rng) len \<rparr>])"

definition allocate_from_free_ranges ::
  "free_map \<Rightarrow> nat \<Rightarrow> free_map \<times> (object_location option, storage_error) result" where
  "allocate_from_free_ranges m len =
     (case find_fit len (RBT.entries (free m)) of
        None \<Rightarrow> (m, Ok None)
      | Some (bin_id, index) \<Rightarrow>
          (case RBT.lookup (free m) bin_id of
             None \<Rightarrow> (m, Err (StorageError InvalidData
               ''storage-bin free range disappeared during allocation''))
           | Some ranges \<Rightarrow>
               (let remaining = take_from_range len index ranges
                in (m\<lparr>free := (if remaining = [] then RBT.delete bin_id (free m)
                               else RBT.insert bin_id remaining (free m))\<rparr>,
                    Ok (Some \<lparr> loc_bin_id = bin_id, loc_offset = fr_offset (ranges ! index),
                              loc_len = len \<rparr>)))))"

definition allocate_fresh ::
  "free_map \<Rightarrow> nat \<Rightarrow> free_map \<times> (object_location option, storage_error) result" where
  "allocate_fresh m len =
     (case bin_capacity m (next_bin_id m) of
        None \<Rightarrow> (m, Ok None)
      | Some capacity \<Rightarrow>
          if len > capacity then (m, Ok None)
          else
            (let bin_id = next_bin_id m;
                 m1 = m\<lparr>next_bin_id := saturating_add (next_bin_id m) 1\<rparr>;
                 remaining = saturating_sub capacity len;
                 location = \<lparr> loc_bin_id = bin_id, loc_offset = 0, loc_len = len \<rparr>
             in if remaining > 0 then
                  (case insert_free_range m1 bin_id \<lparr> fr_offset = len, fr_len = remaining \<rparr> of
                     Err e \<Rightarrow> (m1, Err e)
                   | Ok m2 \<Rightarrow> (m2, Ok (Some location)))
                else (m1, Ok (Some location))))"

definition allocate ::
  "free_map \<Rightarrow> nat \<Rightarrow> free_map \<times> (object_location option, storage_error) result" where
  "allocate m len =
     (if len = 0 then
        (m, Err (StorageError InvalidInput ''storage-bin allocation length must be greater than zero''))
      else if len > bin_size_bytes m then (m, Ok None)
      else case allocate_from_free_ranges m len of
         (m1, Err e) \<Rightarrow> (m1, Err e)
       | (m1, Ok (Some location)) \<Rightarrow> (m1, Ok (Some location))
       | (m1, Ok None) \<Rightarrow> allocate_fresh m1 len)"

definition release :: "free_map \<Rightarrow> object_location \<Rightarrow> (free_map, storage_error) result" where
  "release m location =
     and_then (location_validate location (bin_size_bytes m)) (\<lambda>_.
       case bin_capacity m (loc_bin_id location) of
         None \<Rightarrow> Err (StorageError InvalidInput
           ''storage-bin release references a bin outside the configured cache budget'')
       | Some capacity \<Rightarrow>
           if saturating_add (loc_offset location) (loc_len location) > capacity
           then Err (StorageError InvalidInput ''storage-bin release exceeds the bin capacity'')
           else insert_free_range m (loc_bin_id location)
             \<lparr> fr_offset = loc_offset location, fr_len = loc_len location \<rparr>)"

text \<open>Whether the last bin is entirely free, which lets \<open>reclaim_free_tail_bins\<close> drop it.\<close>

definition tail_bin_free :: "free_map \<Rightarrow> bool" where
  "tail_bin_free m =
     (if next_bin_id m = 0 then False
      else case bin_capacity m (next_bin_id m - 1) of
         None \<Rightarrow> False
       | Some capacity \<Rightarrow>
           (case RBT.lookup (free m) (next_bin_id m - 1) of
              None \<Rightarrow> False
            | Some ranges \<Rightarrow>
                length ranges = 1 \<and> fr_offset (ranges ! 0) = 0 \<and> fr_len (ranges ! 0) = capacity))"

function reclaim_free_tail_bins :: "free_map \<Rightarrow> nat list \<Rightarrow> free_map \<times> nat list" where
  "reclaim_free_tail_bins m reclaimed =
     (if tail_bin_free m then
        reclaim_free_tail_bins
          (m\<lparr>free := RBT.delete (next_bin_id m - 1) (free m), next_bin_id := next_bin_id m - 1\<rparr>)
          (reclaimed @ [next_bin_id m - 1])
      else (m, reclaimed))"
  by pat_completeness auto
termination
  by (relation "measure (\<lambda>(m, reclaimed). next_bin_id m)") (auto simp: tail_bin_free_def split: if_splits)

declare reclaim_free_tail_bins.simps [simp del]

section \<open>Sizes\<close>

definition allocated_size_bytes :: "free_map \<Rightarrow> nat" where
  "allocated_size_bytes m =
     foldl saturating_add 0 (List.map_filter (bin_capacity m) [0..<next_bin_id m])"

definition all_free_ranges :: "free_map \<Rightarrow> free_range list" where
  "all_free_ranges m = concat (map snd (RBT.entries (free m)))"

definition free_size_bytes :: "free_map \<Rightarrow> nat" where
  "free_size_bytes m = foldl saturating_add 0 (map fr_len (all_free_ranges m))"

definition free_range_count :: "free_map \<Rightarrow> nat" where
  "free_range_count m = foldl saturating_add 0 (map (length \<circ> snd) (RBT.entries (free m)))"

definition largest_free_range_bytes :: "free_map \<Rightarrow> nat" where
  "largest_free_range_bytes m = foldl max 0 (map fr_len (all_free_ranges m))"

definition bin_files :: "free_map \<Rightarrow> nat" where
  "bin_files m = next_bin_id m"

section \<open>Rebuilding the map from the index\<close>

record index_entry =
  combined_key :: string
  entry_location :: object_location
  accessed_nanos :: int

text \<open>The first loop of \<open>from_occupied\<close>: the ranges in use, by bin, in the order of the entries.\<close>

fun collect_occupied ::
  "nat \<Rightarrow> free_map \<Rightarrow> (nat, free_range list) rbt \<Rightarrow> index_entry list \<Rightarrow>
   (free_map \<times> (nat, free_range list) rbt, storage_error) result" where
  "collect_occupied bin_size m occupied [] = Ok (m, occupied)"
| "collect_occupied bin_size m occupied (entry # entries) =
     and_then (location_validate (entry_location entry) bin_size) (\<lambda>location.
       case bin_capacity m (loc_bin_id location) of
         None \<Rightarrow> Err (StorageError InvalidData
           ''storage-bin index references a bin outside the configured cache budget'')
       | Some capacity \<Rightarrow>
           if saturating_add (loc_offset location) (loc_len location) > capacity
           then Err (StorageError InvalidData ''storage-bin index object exceeds bin capacity'')
           else collect_occupied bin_size
             (m\<lparr>next_bin_id := max (next_bin_id m) (saturating_add (loc_bin_id location) 1)\<rparr>)
             (RBT.insert (loc_bin_id location)
               ((case RBT.lookup occupied (loc_bin_id location) of None \<Rightarrow> [] | Some rs \<Rightarrow> rs)
                 @ [\<lparr> fr_offset = loc_offset location, fr_len = loc_len location \<rparr>]) occupied)
             entries)"

text \<open>The inner loop: the gaps between the sorted ranges of one bin.\<close>

fun fill_gaps ::
  "nat \<Rightarrow> free_map \<Rightarrow> nat \<Rightarrow> free_range list \<Rightarrow> (free_map \<times> nat, storage_error) result" where
  "fill_gaps bin_id m cursor [] = Ok (m, cursor)"
| "fill_gaps bin_id m cursor (rng # ranges) =
     (if fr_offset rng < cursor
      then Err (StorageError InvalidData ''storage-bin index contains overlapping object ranges'')
      else and_then
        (if fr_offset rng > cursor
         then insert_free_range m bin_id \<lparr> fr_offset = cursor, fr_len = fr_offset rng - cursor \<rparr>
         else Ok m)
        (\<lambda>m. fill_gaps bin_id m (saturating_add (fr_offset rng) (fr_len rng)) ranges))"

definition fill_bin :: "free_map \<Rightarrow> nat \<times> free_range list \<Rightarrow> (free_map, storage_error) result" where
  "fill_bin m bin =
     (case bin of (bin_id, ranges) \<Rightarrow>
        (let capacity = (case bin_capacity m bin_id of None \<Rightarrow> 0 | Some c \<Rightarrow> c)
         in and_then (fill_gaps bin_id m 0 (sort_key fr_offset ranges)) (\<lambda>(m, cursor).
              if cursor < capacity
              then insert_free_range m bin_id \<lparr> fr_offset = cursor, fr_len = capacity - cursor \<rparr>
              else Ok m)))"

fun fill_bins :: "free_map \<Rightarrow> (nat \<times> free_range list) list \<Rightarrow> (free_map, storage_error) result" where
  "fill_bins m [] = Ok m"
| "fill_bins m (bin # bins) = and_then (fill_bin m bin) (\<lambda>m. fill_bins m bins)"

definition from_occupied ::
  "storage_bin_layout \<Rightarrow> index_entry list \<Rightarrow> (free_map, storage_error) result" where
  "from_occupied layout entries =
     and_then (collect_occupied (layout_bin_size_bytes layout) (free_map_new layout) RBT.empty entries)
       (\<lambda>(m, occupied). fill_bins m (RBT.entries occupied))"

end
