(* ===== verification/Storage_Bin_Ranges.thy ===== *)
theory Storage_Bin_Ranges
  imports Storage_Bin
begin

text \<open>
  Lists of free byte ranges as sets of offsets: merging keeps the set and yields the one sorted list
  of maximal ranges that stands for it.
\<close>

section \<open>Ranges as sets of offsets\<close>

definition range_end :: "free_range \<Rightarrow> nat" where
  "range_end r = fr_offset r + fr_len r"

definition range_bytes :: "free_range \<Rightarrow> nat set" where
  "range_bytes r = {fr_offset r..<range_end r}"

definition ranges_bytes :: "free_range list \<Rightarrow> nat set" where
  "ranges_bytes rs = (\<Union>r \<in> set rs. range_bytes r)"

definition coalesced :: "free_range list \<Rightarrow> bool" where
  "coalesced rs \<longleftrightarrow> (\<forall>r \<in> set rs. 0 < fr_len r) \<and> sorted_wrt (\<lambda>r s. range_end r < fr_offset s) rs"

lemma ranges_bytes_simps [simp]:
  "ranges_bytes [] = {}" "ranges_bytes (r # rs) = range_bytes r \<union> ranges_bytes rs"
  "ranges_bytes (rs @ ss) = ranges_bytes rs \<union> ranges_bytes ss"
  by (auto simp: ranges_bytes_def)

lemma coalesced_Nil [simp]: "coalesced []"
  by (simp add: coalesced_def)

lemma coalesced_Cons:
  "coalesced (r # rs) \<longleftrightarrow> 0 < fr_len r \<and> (\<forall>s \<in> set rs. range_end r < fr_offset s) \<and> coalesced rs"
  by (auto simp: coalesced_def)

lemma coalesced_append:
  "coalesced (rs @ ss) \<longleftrightarrow>
     coalesced rs \<and> coalesced ss \<and> (\<forall>r \<in> set rs. \<forall>s \<in> set ss. range_end r < fr_offset s)"
  by (auto simp: coalesced_def sorted_wrt_append)

lemma coalesced_last:
  assumes "coalesced (rs @ [l])" and "range_end l < fr_offset r" and "0 < fr_len r"
  shows "coalesced (rs @ [l, r])"
  using assms by (fastforce simp: coalesced_append coalesced_Cons range_end_def)

section \<open>Merging\<close>

definition merge_state :: "nat \<Rightarrow> free_range list \<Rightarrow> free_range list \<Rightarrow> bool" where
  "merge_state cap rs merged \<longleftrightarrow>
     coalesced merged \<and> ranges_bytes merged = ranges_bytes rs \<and> (merged = [] \<longleftrightarrow> rs = [])
     \<and> (\<forall>r \<in> set merged. range_end r \<le> cap)
     \<and> (rs \<noteq> [] \<longrightarrow> fr_offset (last merged) \<le> fr_offset (last rs))"

lemma merge_push_state:
  assumes "merge_state cap rs merged" and "0 < fr_len r" and "range_end r \<le> cap" and "cap \<le> u64_max"
    and "rs \<noteq> [] \<Longrightarrow> fr_offset (last rs) \<le> fr_offset r"
  shows "merge_state cap (rs @ [r]) (merge_push merged r)"
proof (cases merged rule: rev_cases)
  case Nil
  with assms show ?thesis
    by (auto simp: merge_state_def merge_push_def coalesced_Cons)
next
  case (snoc ms l)
  with assms have ok: "coalesced (ms @ [l])" "ranges_bytes rs = ranges_bytes ms \<union> range_bytes l"
    and l: "range_end l \<le> cap" "fr_offset l \<le> fr_offset r" "rs \<noteq> []"
    and ms: "\<forall>r \<in> set ms. range_end r \<le> cap"
    by (auto simp: merge_state_def)
  have sat: "saturating_add (fr_offset l) (fr_len l) = range_end l"
    "saturating_add (fr_offset r) (fr_len r) = range_end r"
    using l(1) assms(3,4) by (simp_all add: saturating_add_exact range_end_def)
  show ?thesis
  proof (cases "fr_offset r \<le> range_end l")
    case True
    let ?l = "l\<lparr>fr_len := max (range_end r - fr_offset l) (fr_len l)\<rparr>"
    have e: "range_end ?l = max (range_end r) (range_end l)"
      using l(2) by (auto simp: range_end_def)
    have "range_bytes ?l = {fr_offset l..<max (range_end r) (range_end l)}"
      unfolding range_bytes_def e by simp
    also have "\<dots> = range_bytes l \<union> range_bytes r"
      using l(2) True by (auto simp: range_bytes_def)
    finally have "range_bytes ?l = range_bytes l \<union> range_bytes r" .
    moreover have "coalesced (ms @ [?l])"
      using ok(1) by (auto simp: coalesced_append coalesced_Cons)
    ultimately show ?thesis
      using snoc True ok l ms assms(3) e by (auto simp: merge_push_def sat merge_state_def)
  next
    case False
    then show ?thesis
      using snoc ok l ms assms(2,3) coalesced_last [of ms l r]
      by (auto simp: merge_push_def sat merge_state_def)
  qed
qed

lemma merge_ranges_state:
  assumes "sorted (map fr_offset rs)" and "\<forall>r \<in> set rs. 0 < fr_len r \<and> range_end r \<le> cap"
    and "cap \<le> u64_max"
  shows "merge_state cap rs (merge_ranges rs)"
  using assms
proof (induction rs rule: rev_induct)
  case Nil
  then show ?case by (simp add: merge_state_def merge_ranges_def)
next
  case (snoc r rs)
  have "fr_offset (last rs) \<le> fr_offset r" if "rs \<noteq> []"
    using snoc.prems(1) that by (auto simp: sorted_append)
  then have "merge_state cap (rs @ [r]) (merge_push (merge_ranges rs) r)"
    using snoc by (intro merge_push_state) (auto simp: sorted_append)
  then show ?case by (simp add: merge_ranges_def)
qed

section \<open>One list per set\<close>

lemma coalesced_min:
  assumes "coalesced (r # rs)"
  shows "fr_offset r \<in> ranges_bytes (r # rs)" "\<forall>i \<in> ranges_bytes (r # rs). fr_offset r \<le> i"
    "range_end r \<notin> ranges_bytes (r # rs)"
  using assms by (fastforce simp: coalesced_Cons range_bytes_def range_end_def ranges_bytes_def)+

lemma coalesced_unique:
  "coalesced rs \<Longrightarrow> coalesced ss \<Longrightarrow> ranges_bytes rs = ranges_bytes ss \<Longrightarrow> rs = ss"
proof (induction rs arbitrary: ss)
  case Nil
  then show ?case using coalesced_min(1) by (cases ss) auto
next
  case (Cons r rs)
  obtain s ss' where ss: "ss = s # ss'"
    using Cons.prems coalesced_min(1) [of r rs] by (cases ss) auto
  note r = coalesced_min [OF Cons.prems(1)] and s = coalesced_min [OF Cons.prems(2) [unfolded ss]]
  have eq: "ranges_bytes (r # rs) = ranges_bytes (s # ss')" using Cons.prems(3) ss by simp
  have off: "fr_offset r = fr_offset s"
    using r(1,2) s(1,2) eq by (metis antisym)
  have "range_end r = range_end s"
  proof (rule ccontr)
    assume "range_end r \<noteq> range_end s"
    moreover have "range_end r \<in> ranges_bytes (s # ss')" if "range_end r < range_end s"
      using that off Cons.prems(1) by (auto simp: range_bytes_def coalesced_Cons range_end_def)
    moreover have "range_end s \<in> ranges_bytes (r # rs)" if "range_end s < range_end r"
      using that off Cons.prems(2) ss by (auto simp: range_bytes_def coalesced_Cons range_end_def)
    ultimately show False using r(3) s(3) eq by (metis nat_neq_iff)
  qed
  with off have "r = s" by (simp add: range_end_def)
  moreover have "ranges_bytes rs = ranges_bytes (r # rs) - range_bytes r" if "coalesced (r # rs)" for r rs
    using that by (fastforce simp: coalesced_Cons range_bytes_def ranges_bytes_def range_end_def)
  ultimately have "ranges_bytes rs = ranges_bytes ss'"
    using Cons.prems ss eq by metis
  then show ?case
    using Cons.IH [of ss'] Cons.prems ss \<open>r = s\<close> by (simp add: coalesced_Cons)
qed

section \<open>Taking bytes from a range\<close>

lemma position_fit:
  assumes "position (\<lambda>r. len \<le> fr_len r) rs = Some i"
  shows "i < length rs" "len \<le> fr_len (rs ! i)"
  using assms by (auto simp: position_Some_iff)

lemma split_nth: "i < length xs \<Longrightarrow> xs = take i xs @ xs ! i # drop (Suc i) xs"
  by (rule id_take_nth_drop)

lemma take_from_range_state:
  assumes "coalesced rs" and "\<forall>r \<in> set rs. range_end r \<le> cap" and "cap \<le> u64_max"
    and "i < length rs" and "0 < len" and "len \<le> fr_len (rs ! i)"
  defines "bytes \<equiv> {fr_offset (rs ! i)..<fr_offset (rs ! i) + len}"
  shows "coalesced (take_from_range len i rs)" "\<forall>r \<in> set (take_from_range len i rs). range_end r \<le> cap"
    "ranges_bytes (take_from_range len i rs) = ranges_bytes rs - bytes" "bytes \<subseteq> ranges_bytes rs"
proof -
  define pre r post where "pre = take i rs" and "r = rs ! i" and "post = drop (Suc i) rs"
  have rs: "rs = pre @ r # post"
    unfolding pre_def r_def post_def by (rule split_nth [OF assms(4)])
  have len_pre: "length pre = i" using assms(4) by (simp add: pre_def)
  have ok: "coalesced pre" "coalesced post" "0 < fr_len r"
    "\<forall>p \<in> set pre. range_end p < fr_offset r" "\<forall>q \<in> set post. range_end r < fr_offset q"
    using assms(1) by (auto simp: rs coalesced_append coalesced_Cons)
  have far: "ranges_bytes pre \<inter> bytes = {}" "ranges_bytes post \<inter> bytes = {}"
    using ok assms(6) unfolding bytes_def r_def [symmetric]
    by (fastforce simp: ranges_bytes_def range_bytes_def range_end_def)+
  have in_r: "bytes \<subseteq> range_bytes r"
    using assms(6) by (auto simp: bytes_def r_def [symmetric] range_bytes_def range_end_def)
  show "bytes \<subseteq> ranges_bytes rs" using in_r by (auto simp: rs)
  have rs_bytes: "ranges_bytes rs = ranges_bytes pre \<union> range_bytes r \<union> ranges_bytes post"
    and ends: "\<forall>q \<in> set pre \<union> {r} \<union> set post. range_end q \<le> cap"
    using assms(2) by (auto simp: rs)
  have "coalesced (take_from_range len i rs) \<and> (\<forall>r \<in> set (take_from_range len i rs). range_end r \<le> cap)
    \<and> ranges_bytes (take_from_range len i rs) = ranges_bytes rs - bytes"
  proof (cases "fr_len r = len")
    case True
    then have t: "take_from_range len i rs = pre @ post"
      by (simp add: take_from_range_def r_def remove_at_def pre_def post_def)
    have "bytes = range_bytes r" using True by (simp add: bytes_def r_def range_bytes_def range_end_def)
    moreover have "coalesced (pre @ post)"
      using ok unfolding coalesced_append range_end_def by fastforce
    ultimately show ?thesis
      unfolding t rs_bytes using ends far by auto
  next
    case False
    let ?r = "\<lparr>fr_offset = fr_offset r + len, fr_len = fr_len r - len\<rparr>"
    have "fr_offset r + len \<le> u64_max"
      using ends assms(3,6) unfolding r_def [symmetric] by (simp add: range_end_def)
    moreover have "rs[i := ?r] = pre @ ?r # post"
      unfolding rs len_pre [symmetric] by simp
    ultimately have t: "take_from_range len i rs = pre @ ?r # post"
      using False by (simp add: take_from_range_def r_def [symmetric] saturating_add_exact)
    have e: "range_end ?r = range_end r" using assms(6) by (simp add: range_end_def r_def)
    have "range_bytes ?r = range_bytes r - bytes"
      unfolding bytes_def r_def [symmetric] by (auto simp: range_bytes_def e)
    moreover have "coalesced (pre @ ?r # post)"
    proof -
      have "0 < fr_len ?r" using False assms(6) by (simp add: r_def)
      moreover have "range_end p < fr_offset ?r" if "p \<in> set pre" for p
        using ok(4) that by (simp add: trans_less_add1)
      moreover have "range_end p < fr_offset q" if "p \<in> set pre" "q \<in> set post" for p q
        using ok(4) [rule_format, OF that(1)] ok(5) [rule_format, OF that(2)] by (simp add: range_end_def)
      ultimately show ?thesis
        using ok e by (simp add: coalesced_append coalesced_Cons)
    qed
    ultimately show ?thesis
      unfolding t rs_bytes using ends far e by auto
  qed
  then show "coalesced (take_from_range len i rs)" "\<forall>r \<in> set (take_from_range len i rs). range_end r \<le> cap"
    "ranges_bytes (take_from_range len i rs) = ranges_bytes rs - bytes" by blast+
qed

end
