(* ===== verification/Storage_Bin_Laws.thy ===== *)
theory Storage_Bin_Laws
  imports Storage_Bin_Ranges
begin

text \<open>
  The free map as a set of free bytes: the invariant of the map, what each operation does to the free
  bytes and to the bytes of the bins, and the locale of byte allocators that these laws interpret.
\<close>

section \<open>Allocators of bytes\<close>

text \<open>
  An allocator owns a set of bytes and knows which of them are free. What its clients hold and what is
  neither held nor free are disjoint from the free bytes and fill the rest.
\<close>

locale byte_allocator =
  fixes ok :: "'s \<Rightarrow> bool"
    and free_set :: "'s \<Rightarrow> 'b set"
    and owned :: "'s \<Rightarrow> 'b set"
    and bytes :: "'l \<Rightarrow> 'b set"
    and alloc :: "'s \<Rightarrow> nat \<Rightarrow> 's \<Rightarrow> 'l \<Rightarrow> bool"
    and dealloc :: "'s \<Rightarrow> 'l \<Rightarrow> 's \<Rightarrow> bool"
    and shrink :: "'s \<Rightarrow> 's \<Rightarrow> bool"
  assumes alloc_law: "ok s \<Longrightarrow> alloc s n s' l \<Longrightarrow>
      ok s' \<and> owned s \<subseteq> owned s' \<and> bytes l \<subseteq> free_set s \<union> (owned s' - owned s)
      \<and> free_set s' = (free_set s \<union> (owned s' - owned s)) - bytes l"
    and dealloc_law: "ok s \<Longrightarrow> bytes l \<subseteq> owned s \<Longrightarrow> dealloc s l s' \<Longrightarrow>
      ok s' \<and> owned s' = owned s \<and> free_set s' = free_set s \<union> bytes l"
    and shrink_law: "ok s \<Longrightarrow> shrink s s' \<Longrightarrow>
      ok s' \<and> owned s' \<subseteq> owned s \<and> owned s - owned s' \<subseteq> free_set s
      \<and> free_set s' = free_set s \<inter> owned s'"
    and bytes_nonempty: "ok s \<Longrightarrow> alloc s n s' l \<Longrightarrow> bytes l \<noteq> {}"
begin

definition tiled :: "'s \<Rightarrow> 'l list \<Rightarrow> 'b set \<Rightarrow> bool" where
  "tiled s live lost \<longleftrightarrow>
     ok s \<and> sorted_wrt (\<lambda>a b. bytes a \<inter> bytes b = {}) live
     \<and> free_set s \<inter> (\<Union> (bytes ` set live) \<union> lost) = {} \<and> \<Union> (bytes ` set live) \<inter> lost = {}
     \<and> free_set s \<union> \<Union> (bytes ` set live) \<union> lost = owned s"

lemma tiled_alloc:
  assumes "tiled s live lost" and "alloc s n s' l"
  shows "tiled s' (l # live) lost"
proof -
  note law = alloc_law [OF _ assms(2)]
  have *: "ok s" "\<Union> (bytes ` set live) \<union> lost \<subseteq> owned s" "free_set s \<subseteq> owned s"
    using assms(1) by (auto simp: tiled_def)
  have "bytes l \<inter> (\<Union> (bytes ` set live) \<union> lost) = {}"
    using law [OF *(1)] * assms(1) unfolding tiled_def by blast
  then show ?thesis
    using law [OF *(1)] * assms(1) unfolding tiled_def by auto
qed

lemma tiled_dealloc:
  assumes "tiled s (xs @ l # ys) lost" and "dealloc s l s'"
  shows "tiled s' (xs @ ys) lost"
proof -
  have *: "ok s" "bytes l \<subseteq> owned s" using assms(1) by (auto simp: tiled_def)
  have disjoint: "bytes l \<inter> (\<Union> (bytes ` set (xs @ ys)) \<union> lost) = {}"
    using assms(1) by (auto simp: tiled_def sorted_wrt_append)
  from dealloc_law [OF * assms(2)] disjoint assms(1) show ?thesis
    unfolding tiled_def by (auto simp: sorted_wrt_append)
qed

lemma tiled_shrink:
  assumes "tiled s live lost" and "shrink s s'"
  shows "tiled s' live lost"
proof -
  have "ok s" using assms(1) by (simp add: tiled_def)
  note law = shrink_law [OF this assms(2)]
  define held where "held = \<Union> (bytes ` set live)"
  have *: "free_set s \<inter> (held \<union> lost) = {}" "held \<inter> lost = {}" "free_set s \<union> held \<union> lost = owned s"
    using assms(1) by (simp_all add: tiled_def held_def)
  have "free_set s' \<inter> (held \<union> lost) = {}" using * law by auto
  moreover have "free_set s' \<union> held \<union> lost = owned s'" using * law by auto
  ultimately show ?thesis
    using * law assms(1) by (simp add: tiled_def held_def)
qed

end

section \<open>The free map as sets of bytes\<close>

text \<open>A byte of the storage is named by its bin and its offset in the bin.\<close>

definition free_bytes :: "free_map \<Rightarrow> (nat \<times> nat) set" where
  "free_bytes m = {(b, i). i \<in> ranges_bytes (free_ranges m b)}"

definition bin_bytes :: "free_map \<Rightarrow> (nat \<times> nat) set" where
  "bin_bytes m = {(b, i). b < next_bin_id m \<and> (\<exists>c. bin_capacity m b = Some c \<and> i < c)}"

definition loc_bytes :: "object_location \<Rightarrow> (nat \<times> nat) set" where
  "loc_bytes l = {loc_bin_id l} \<times> {loc_offset l..<loc_offset l + loc_len l}"

definition bin_ok :: "free_map \<Rightarrow> nat \<Rightarrow> free_range list \<Rightarrow> bool" where
  "bin_ok m b rs \<longleftrightarrow>
     b < next_bin_id m \<and> coalesced rs
     \<and> (\<exists>c. bin_capacity m b = Some c \<and> (\<forall>r \<in> set rs. range_end r \<le> c))"

definition free_map_ok :: "free_map \<Rightarrow> bool" where
  "free_map_ok m \<longleftrightarrow>
     bin_size_bytes m \<le> u64_max \<and> max_size_bytes m \<le> u64_max
     \<and> (\<forall>b < next_bin_id m. bin_capacity m b \<noteq> None)
     \<and> (\<forall>b rs. RBT.lookup (free m) b = Some rs \<longrightarrow> rs \<noteq> [] \<and> bin_ok m b rs)"

lemma bin_capacity_update [simp]:
  "bin_capacity (m\<lparr>free := f\<rparr>) = bin_capacity m" "bin_capacity (m\<lparr>next_bin_id := n\<rparr>) = bin_capacity m"
  by (auto simp: bin_capacity_def fun_eq_iff split: option.split)

lemma bin_capacity_Some:
  "bin_capacity m b = Some c \<longleftrightarrow>
     b * bin_size_bytes m \<le> u64_max \<and> b * bin_size_bytes m < max_size_bytes m
     \<and> c = min (bin_size_bytes m) (max_size_bytes m - b * bin_size_bytes m)"
  by (auto simp: bin_capacity_def result_simps split: option.splits if_splits)

lemma bin_capacity_le: "bin_capacity m b = Some c \<Longrightarrow> c \<le> bin_size_bytes m"
  by (simp add: bin_capacity_Some)

lemma bin_capacity_u64: "free_map_ok m \<Longrightarrow> bin_capacity m b = Some c \<Longrightarrow> c \<le> u64_max"
  by (auto simp: free_map_ok_def dest: bin_capacity_le)

lemma bin_capacity_mono:
  assumes "bin_capacity m b = Some c" and "a \<le> b"
  shows "bin_capacity m a \<noteq> None"
proof -
  have "a * bin_size_bytes m \<le> b * bin_size_bytes m" using assms(2) by simp
  then have "bin_capacity m a = Some (min (bin_size_bytes m) (max_size_bytes m - a * bin_size_bytes m))"
    using assms(1) unfolding bin_capacity_Some by linarith
  then show ?thesis by simp
qed

lemma free_ranges_ok:
  assumes "free_map_ok m" and "bin_capacity m b = Some c"
  shows "coalesced (free_ranges m b)" "\<forall>r \<in> set (free_ranges m b). range_end r \<le> c"
proof -
  have "coalesced (free_ranges m b) \<and> (\<forall>r \<in> set (free_ranges m b). range_end r \<le> c)"
  proof (cases "RBT.lookup (free m) b")
    case (Some rs)
    then have "bin_ok m b rs" using assms(1) by (simp add: free_map_ok_def)
    with Some assms(2) show ?thesis by (simp add: free_ranges_def bin_ok_def)
  qed (simp add: free_ranges_def)
  then show "coalesced (free_ranges m b)" "\<forall>r \<in> set (free_ranges m b). range_end r \<le> c" by blast+
qed

lemma free_bytes_subset:
  assumes "free_map_ok m"
  shows "free_bytes m \<subseteq> bin_bytes m"
proof clarify
  fix b i
  assume i: "(b, i) \<in> free_bytes m"
  then obtain rs where "RBT.lookup (free m) b = Some rs" and "i \<in> ranges_bytes rs"
    by (cases "RBT.lookup (free m) b") (auto simp: free_bytes_def free_ranges_def)
  moreover from this assms have "bin_ok m b rs" by (simp add: free_map_ok_def)
  ultimately show "(b, i) \<in> bin_bytes m"
    by (fastforce simp: bin_bytes_def bin_ok_def ranges_bytes_def range_bytes_def)
qed

section \<open>Inserting free ranges\<close>

lemma free_ranges_insert [simp]:
  "free_ranges (m\<lparr>free := RBT.insert b rs (free m)\<rparr>) a = (if a = b then rs else free_ranges m a)"
  "free_ranges (m\<lparr>free := RBT.delete b (free m)\<rparr>) a = (if a = b then [] else free_ranges m a)"
  by (simp_all add: free_ranges_def)

lemma free_map_ok_insert:
  assumes "free_map_ok m" and "rs \<noteq> []" and "bin_ok m b rs"
  shows "free_map_ok (m\<lparr>free := RBT.insert b rs (free m)\<rparr>)"
  using assms by (auto simp: free_map_ok_def bin_ok_def)

lemma insert_free_range_ok:
  assumes "free_map_ok m" and "bin_capacity m b = Some c" and "b < next_bin_id m" and "range_end r \<le> c"
  shows "\<exists>m'. insert_free_range m b r = Ok m' \<and> free_map_ok m' \<and> next_bin_id m' = next_bin_id m
    \<and> bin_capacity m' = bin_capacity m \<and> free_bytes m' = free_bytes m \<union> {b} \<times> range_bytes r"
proof (cases "fr_len r = 0")
  case True
  then show ?thesis
    using assms by (auto simp: insert_free_range_def range_bytes_def range_end_def)
next
  case False
  let ?rs = "sort_key fr_offset (free_ranges m b @ [r])"
  have c: "c \<le> u64_max" by (rule bin_capacity_u64 [OF assms(1,2)])
  have "merge_state c ?rs (merge_ranges ?rs)"
    using free_ranges_ok [OF assms(1,2)] False assms(4) c
    by (intro merge_ranges_state) (auto simp: coalesced_def)
  moreover have "?rs \<noteq> []" by (metis append_is_Nil_conv length_0_conv length_sort list.discI)
  moreover have "ranges_bytes ?rs = ranges_bytes (free_ranges m b) \<union> range_bytes r"
    by (auto simp: ranges_bytes_def)
  ultimately have merged: "coalesced (merge_ranges ?rs)" "merge_ranges ?rs \<noteq> []"
    "\<forall>r \<in> set (merge_ranges ?rs). range_end r \<le> c"
    "ranges_bytes (merge_ranges ?rs) = ranges_bytes (free_ranges m b) \<union> range_bytes r"
    by (simp_all add: merge_state_def)
  let ?m = "m\<lparr>free := RBT.insert b (merge_ranges ?rs) (free m)\<rparr>"
  have "insert_free_range m b r = Ok ?m"
    using False assms c by (simp add: insert_free_range_def checked_add_def range_end_def)
  moreover have "free_map_ok ?m"
    using assms merged by (intro free_map_ok_insert) (auto simp: bin_ok_def)
  moreover have "free_bytes ?m = free_bytes m \<union> {b} \<times> range_bytes r"
    using merged(4) by (auto simp: free_bytes_def split: if_splits)
  ultimately show ?thesis by auto
qed

section \<open>Allocation\<close>

lemma find_fit_Some:
  assumes "find_fit len bins = Some (b, i)"
  shows "\<exists>rs. (b, rs) \<in> set bins \<and> i < length rs \<and> len \<le> fr_len (rs ! i)"
  using assms
proof (induction bins)
  case (Cons bin bins)
  obtain b' rs where bin: "bin = (b', rs)" by (cases bin)
  show ?case
  proof (cases "position (\<lambda>r. len \<le> fr_len r) rs")
    case None
    with Cons bin show ?thesis by auto
  next
    case (Some j)
    with Cons.prems bin position_fit [OF Some] show ?thesis by auto
  qed
qed simp

lemma find_fit_None:
  "find_fit len bins = None \<longleftrightarrow> (\<forall>(b, rs) \<in> set bins. \<forall>r \<in> set rs. fr_len r < len)"
proof (induction bins)
  case (Cons bin bins)
  obtain b rs where "bin = (b, rs)" by (cases bin)
  with Cons show ?case
    using position_None_iff [of "\<lambda>r. len \<le> fr_len r" rs]
    by (cases "position (\<lambda>r. len \<le> fr_len r) rs") (auto simp: not_le)
qed simp

lemma lookup_entries: "(b, rs) \<in> set (RBT.entries t) \<longleftrightarrow> RBT.lookup t b = Some rs"
  using map_of_eq_Some_iff [OF RBT.distinct_entries [of t], of b rs] by (simp add: RBT.map_of_entries)

text \<open>A range is taken from a bin in use.\<close>

lemma allocate_from_free_ranges_Some:
  assumes "free_map_ok m" and "0 < len"
    and "find_fit len (RBT.entries (free m)) = Some (b, i)"
  shows "\<exists>m' l. allocate_from_free_ranges m len = (m', Ok (Some l)) \<and> free_map_ok m' \<and> loc_len l = len
    \<and> bin_bytes m' = bin_bytes m \<and> loc_bytes l \<subseteq> free_bytes m \<and> free_bytes m' = free_bytes m - loc_bytes l"
proof -
  from find_fit_Some [OF assms(3)] obtain rs where rs: "RBT.lookup (free m) b = Some rs"
    and fit: "i < length rs" "len \<le> fr_len (rs ! i)"
    by (auto simp: lookup_entries)
  from assms(1) rs have "bin_ok m b rs" by (simp add: free_map_ok_def)
  then obtain c where c: "bin_capacity m b = Some c" "b < next_bin_id m" "coalesced rs"
    "\<forall>r \<in> set rs. range_end r \<le> c" by (auto simp: bin_ok_def)
  let ?rest = "take_from_range len i rs"
  define l where "l = \<lparr>loc_bin_id = b, loc_offset = fr_offset (rs ! i), loc_len = len\<rparr>"
  define m' where "m' = m\<lparr>free := (if ?rest = [] then RBT.delete b (free m) else RBT.insert b ?rest (free m))\<rparr>"
  note t = take_from_range_state [OF c(3,4) bin_capacity_u64 [OF assms(1) c(1)] fit(1) assms(2) fit(2)]
  have "allocate_from_free_ranges m len = (m', Ok (Some l))"
    by (simp add: allocate_from_free_ranges_def assms(3) rs Let_def m'_def l_def)
  moreover have "free_map_ok m'"
  proof (cases "?rest = []")
    case True
    then show ?thesis using assms(1) by (auto simp: m'_def free_map_ok_def bin_ok_def split: if_splits)
  next
    case False
    then show ?thesis
      unfolding m'_def using free_map_ok_insert [OF assms(1) False] t c by (auto simp: bin_ok_def)
  qed
  moreover have fr: "free_ranges m' a = (if a = b then ?rest else free_ranges m a)" for a
    by (simp add: m'_def)
  moreover have "free_ranges m b = rs" by (simp add: free_ranges_def rs)
  ultimately show ?thesis
    using t(3,4)
    by (intro exI [of _ m'] exI [of _ l])
      (auto simp: free_bytes_def loc_bytes_def l_def bin_bytes_def m'_def split: if_splits)
qed

text \<open>The next bin is opened.\<close>

lemma allocate_fresh_Some:
  assumes "free_map_ok m" and "0 < len" and "bin_capacity m (next_bin_id m) = Some c" and "len \<le> c"
  shows "\<exists>m' l. allocate_fresh m len = (m', Ok (Some l)) \<and> free_map_ok m' \<and> loc_len l = len
    \<and> bin_bytes m' = bin_bytes m \<union> {next_bin_id m} \<times> {..<c} \<and> loc_bytes l = {next_bin_id m} \<times> {..<len}
    \<and> free_bytes m' = (free_bytes m \<union> {next_bin_id m} \<times> {..<c}) - loc_bytes l"
proof -
  let ?b = "next_bin_id m"
  define m1 where "m1 = m\<lparr>next_bin_id := Suc ?b\<rparr>"
  define l where "l = \<lparr>loc_bin_id = ?b, loc_offset = 0, loc_len = len\<rparr>"
  have "?b * 1 \<le> ?b * bin_size_bytes m"
    using assms(2-4) bin_capacity_le [OF assms(3)] by (intro mult_le_mono2) linarith
  moreover have "?b * bin_size_bytes m < max_size_bytes m" "max_size_bytes m \<le> u64_max"
    using assms(1,3) by (simp_all add: free_map_ok_def bin_capacity_Some)
  ultimately have "Suc ?b \<le> u64_max" by linarith
  then have sat: "saturating_add ?b 1 = Suc ?b" by (simp add: saturating_add_exact)
  have ok1: "free_map_ok m1"
    using assms(1,3) by (fastforce simp: free_map_ok_def m1_def bin_ok_def less_Suc_eq)
  have cap1: "bin_capacity m1 = bin_capacity m" and next1: "next_bin_id m1 = Suc ?b" by (simp_all add: m1_def)
  have free1: "free_bytes m1 = free_bytes m" by (simp add: free_bytes_def free_ranges_def m1_def)
  have bins: "bin_bytes m' = bin_bytes m \<union> {?b} \<times> {..<c}"
    if "next_bin_id m' = Suc ?b" "bin_capacity m' = bin_capacity m" for m'
    using that assms(3) by (auto simp: bin_bytes_def less_Suc_eq)
  have unused: "free_bytes m \<inter> {?b} \<times> UNIV = {}"
    using free_bytes_subset [OF assms(1)] by (auto simp: bin_bytes_def)
  have "\<exists>m'. allocate_fresh m len = (m', Ok (Some l)) \<and> free_map_ok m' \<and> next_bin_id m' = Suc ?b
    \<and> bin_capacity m' = bin_capacity m \<and> free_bytes m' = free_bytes m \<union> {?b} \<times> {len..<c}"
  proof (cases "len = c")
    case True
    then have "allocate_fresh m len = (m1, Ok (Some l))"
      using assms(3) sat by (simp add: allocate_fresh_def Let_def m1_def l_def)
    then show ?thesis using True ok1 cap1 next1 free1 by auto
  next
    case False
    let ?r = "\<lparr>fr_offset = len, fr_len = c - len\<rparr>"
    have "bin_capacity m1 ?b = Some c" "?b < next_bin_id m1" "range_end ?r \<le> c"
      using assms(3,4) by (simp_all add: cap1 next1 range_end_def)
    from insert_free_range_ok [OF ok1 this] obtain m2 where "insert_free_range m1 ?b ?r = Ok m2"
      "free_map_ok m2" "next_bin_id m2 = Suc ?b" "bin_capacity m2 = bin_capacity m"
      "free_bytes m2 = free_bytes m \<union> {?b} \<times> range_bytes ?r"
      using cap1 next1 free1 by auto
    moreover from this have "allocate_fresh m len = (m2, Ok (Some l))"
      using False assms(3,4) sat by (simp add: allocate_fresh_def Let_def m1_def l_def)
    moreover have "range_bytes ?r = {len..<c}" using assms(4) by (simp add: range_bytes_def range_end_def)
    ultimately show ?thesis by auto
  qed
  then obtain m' where m': "allocate_fresh m len = (m', Ok (Some l))" "free_map_ok m'"
    "next_bin_id m' = Suc ?b" "bin_capacity m' = bin_capacity m"
    "free_bytes m' = free_bytes m \<union> {?b} \<times> {len..<c}" by auto
  moreover have "loc_bytes l = {?b} \<times> {..<len}" by (auto simp: loc_bytes_def l_def)
  moreover have "free_bytes m \<union> {?b} \<times> {len..<c} = (free_bytes m \<union> {?b} \<times> {..<c}) - {?b} \<times> {..<len}"
    using unused assms(4) by auto
  ultimately show ?thesis
    using bins [OF m'(3,4)] by (intro exI [of _ m'] exI [of _ l]) (simp add: l_def)
qed

end
