(* ===== verification/Storage_Bin_Props.thy ===== *)
theory Storage_Bin_Props
  imports Storage_Bin_Laws "HOL-Library.Code_Target_Nat"
begin

text \<open>
  The laws of allocation, release and tail reclaiming on the free map, and the interpretation of the
  byte allocator locale that they make.
\<close>

section \<open>The laws of the operations\<close>

text \<open>What a request of a positive length returns: never an error, and a range whenever one fits.\<close>

definition fits :: "free_map \<Rightarrow> nat \<Rightarrow> bool" where
  "fits m len \<longleftrightarrow>
     (\<exists>b. \<exists>r \<in> set (free_ranges m b). len \<le> fr_len r)
     \<or> (\<exists>c. bin_capacity m (next_bin_id m) = Some c \<and> len \<le> c)"

lemma find_fit_iff:
  "find_fit len (RBT.entries (free m)) = None \<longleftrightarrow> (\<forall>b. \<forall>r \<in> set (free_ranges m b). fr_len r < len)"
proof -
  have "r \<in> set (free_ranges m b) \<longleftrightarrow> (\<exists>rs. (b, rs) \<in> set (RBT.entries (free m)) \<and> r \<in> set rs)" for b r
    by (cases "RBT.lookup (free m) b") (simp_all add: lookup_entries free_ranges_def)
  then show ?thesis unfolding find_fit_None by fastforce
qed

lemma allocate_law:
  assumes "free_map_ok m" and "allocate m len = (m', Ok (Some l))"
  shows "free_map_ok m' \<and> bin_bytes m \<subseteq> bin_bytes m' \<and> loc_len l = len \<and> 0 < len
    \<and> loc_bytes l \<subseteq> free_bytes m \<union> (bin_bytes m' - bin_bytes m)
    \<and> free_bytes m' = (free_bytes m \<union> (bin_bytes m' - bin_bytes m)) - loc_bytes l"
proof -
  have len: "0 < len" "len \<le> bin_size_bytes m"
    using assms(2) by (auto simp: allocate_def split: if_splits)
  show ?thesis
  proof (cases "find_fit len (RBT.entries (free m))")
    case (Some fit)
    obtain b i where "fit = (b, i)" by (cases fit)
    with allocate_from_free_ranges_Some [OF assms(1) len(1), of b i] Some obtain m1 l1 where
      *: "allocate_from_free_ranges m len = (m1, Ok (Some l1))" "free_map_ok m1 \<and> loc_len l1 = len
        \<and> bin_bytes m1 = bin_bytes m \<and> loc_bytes l1 \<subseteq> free_bytes m
        \<and> free_bytes m1 = free_bytes m - loc_bytes l1"
      by blast
    then have "m1 = m'" "l1 = l" using assms(2) len by (simp_all add: allocate_def)
    then show ?thesis using *(2) len by simp
  next
    case None
    then have fresh: "allocate_fresh m len = (m', Ok (Some l))"
      using assms(2) len by (simp add: allocate_def allocate_from_free_ranges_def)
    then obtain c where c: "bin_capacity m (next_bin_id m) = Some c" "len \<le> c"
      by (auto simp: allocate_fresh_def not_less split: option.splits if_splits)
    from allocate_fresh_Some [OF assms(1) len(1) c] fresh have new: "free_map_ok m'" "loc_len l = len"
      "bin_bytes m' = bin_bytes m \<union> {next_bin_id m} \<times> {..<c}" "loc_bytes l = {next_bin_id m} \<times> {..<len}"
      "free_bytes m' = (free_bytes m \<union> {next_bin_id m} \<times> {..<c}) - loc_bytes l"
      by auto
    have d: "bin_bytes m' - bin_bytes m = {next_bin_id m} \<times> {..<c}"
      unfolding new(3) by (auto simp: bin_bytes_def)
    have "loc_bytes l \<subseteq> free_bytes m \<union> {next_bin_id m} \<times> {..<c}"
      unfolding new(4) using c(2) by auto
    then show ?thesis unfolding d using new(1,2,3,5) len(1) by simp
  qed
qed

lemma allocate_outcome:
  assumes "free_map_ok m" and "0 < len"
  shows "(if len \<le> bin_size_bytes m \<and> fits m len then \<exists>m' l. allocate m len = (m', Ok (Some l))
    else allocate m len = (m, Ok None))"
proof (cases "len \<le> bin_size_bytes m")
  case len: True
  show ?thesis
  proof (cases "find_fit len (RBT.entries (free m))")
    case (Some fit)
    obtain b i where "fit = (b, i)" by (cases fit)
    with allocate_from_free_ranges_Some [OF assms] Some have "\<exists>m' l. allocate m len = (m', Ok (Some l))"
      using len assms(2) by (fastforce simp: allocate_def)
    moreover have "fits m len"
      using Some find_fit_iff [of len m] unfolding fits_def by (metis not_le option.distinct(1))
    ultimately show ?thesis using len by simp
  next
    case None
    then have a: "allocate m len = allocate_fresh m len"
      using len assms(2) by (simp add: allocate_def allocate_from_free_ranges_def)
    have fits: "fits m len \<longleftrightarrow> (\<exists>c. bin_capacity m (next_bin_id m) = Some c \<and> len \<le> c)"
      using None find_fit_iff [of len m] unfolding fits_def by (meson not_le)
    show ?thesis
    proof (cases "fits m len")
      case True
      then obtain c where "bin_capacity m (next_bin_id m) = Some c" "len \<le> c" using fits by auto
      from allocate_fresh_Some [OF assms this] show ?thesis using a len True by auto
    next
      case False
      then show ?thesis using a fits by (auto simp: allocate_fresh_def split: option.splits)
    qed
  qed
qed (use assms(2) in \<open>simp add: allocate_def\<close>)

lemma release_law:
  assumes "free_map_ok m" and "loc_bytes l \<subseteq> bin_bytes m" and "0 < loc_len l"
  shows "\<exists>m'. release m l = Ok m' \<and> free_map_ok m' \<and> bin_bytes m' = bin_bytes m
    \<and> free_bytes m' = free_bytes m \<union> loc_bytes l"
proof -
  have "(loc_bin_id l, loc_offset l + loc_len l - 1) \<in> bin_bytes m"
    using assms(2,3) by (auto simp: loc_bytes_def)
  then obtain c where c: "bin_capacity m (loc_bin_id l) = Some c" "loc_bin_id l < next_bin_id m"
    "loc_offset l + loc_len l \<le> c" using assms(3) by (auto simp: bin_bytes_def)
  let ?r = "\<lparr>fr_offset = loc_offset l, fr_len = loc_len l\<rparr>"
  have u: "c \<le> u64_max" "c \<le> bin_size_bytes m"
    using bin_capacity_u64 [OF assms(1) c(1)] bin_capacity_le [OF c(1)] by auto
  have "range_end ?r \<le> c" using c(3) by (simp add: range_end_def)
  from insert_free_range_ok [OF assms(1) c(1,2) this] obtain m' where m': "insert_free_range m (loc_bin_id l) ?r = Ok m'"
    "free_map_ok m'" "next_bin_id m' = next_bin_id m" "bin_capacity m' = bin_capacity m"
    "free_bytes m' = free_bytes m \<union> {loc_bin_id l} \<times> range_bytes ?r" by blast
  moreover have "release m l = Ok m'"
    using m'(1) c u assms(3)
    by (simp add: release_def location_validate_def checked_add_def saturating_add_exact)
  moreover have "{loc_bin_id l} \<times> range_bytes ?r = loc_bytes l"
    by (simp add: loc_bytes_def range_bytes_def range_end_def)
  ultimately show ?thesis by (auto simp: bin_bytes_def)
qed

lemma tail_bin_step:
  assumes "free_map_ok m" and "tail_bin_free m" and b: "b = next_bin_id m - 1"
    and m1: "m1 = m\<lparr>free := RBT.delete b (free m), next_bin_id := b\<rparr>"
  shows "\<exists>c. free_map_ok m1 \<and> bin_bytes m = bin_bytes m1 \<union> {b} \<times> {..<c}
    \<and> free_bytes m = free_bytes m1 \<union> {b} \<times> {..<c} \<and> bin_bytes m1 \<inter> {b} \<times> UNIV = {}"
proof -
  have nz: "next_bin_id m \<noteq> 0" using assms(2) by (auto simp: tail_bin_free_def split: if_splits)
  then have nb: "next_bin_id m = Suc b" by (simp add: b)
  obtain c rs where c: "bin_capacity m b = Some c" and rs: "RBT.lookup (free m) b = Some rs"
    "length rs = 1" "fr_offset (rs ! 0) = 0" "fr_len (rs ! 0) = c"
    using assms(2) nz unfolding tail_bin_free_def b [symmetric] by (simp split: option.splits)
  obtain r where r: "rs = [r]" using rs(2) by (cases rs) auto
  have lk: "RBT.lookup (free m1) a = (if a = b then None else RBT.lookup (free m) a)" for a
    by (simp add: m1)
  have cap: "bin_capacity m1 = bin_capacity m" and n1: "next_bin_id m1 = b"
    by (simp_all add: m1 bin_capacity_def fun_eq_iff split: option.split)
  have sizes: "bin_size_bytes m1 = bin_size_bytes m" "max_size_bytes m1 = max_size_bytes m"
    by (simp_all add: m1)
  have "free_map_ok m1"
    using assms(1) unfolding free_map_ok_def bin_ok_def lk cap n1 sizes nb
    by (auto simp: less_Suc_eq)
  moreover have "bin_bytes m = bin_bytes m1 \<union> {b} \<times> {..<c}" "bin_bytes m1 \<inter> {b} \<times> UNIV = {}"
    using c unfolding bin_bytes_def cap n1 nb by (auto simp: less_Suc_eq)
  moreover have "free_bytes m = free_bytes m1 \<union> {b} \<times> {..<c}"
    unfolding free_bytes_def free_ranges_def lk using rs
    by (auto simp: r range_bytes_def range_end_def split: if_splits)
  ultimately show ?thesis by blast
qed

lemma reclaim_law:
  assumes "free_map_ok m" and "reclaim_free_tail_bins m acc = (m', bins)"
  shows "free_map_ok m' \<and> bin_bytes m' \<subseteq> bin_bytes m \<and> bin_bytes m - bin_bytes m' \<subseteq> free_bytes m
    \<and> free_bytes m' = free_bytes m \<inter> bin_bytes m'"
  using assms
proof (induction m acc arbitrary: m' bins rule: reclaim_free_tail_bins.induct)
  case (1 m acc)
  show ?case
  proof (cases "tail_bin_free m")
    case False
    then have "m' = m" using 1(3) by (simp add: reclaim_free_tail_bins.simps [of m])
    then show ?thesis using 1(2) free_bytes_subset [of m] by auto
  next
    case True
    define b where "b = next_bin_id m - 1"
    define m1 where "m1 = m\<lparr>free := RBT.delete b (free m), next_bin_id := b\<rparr>"
    from tail_bin_step [OF 1(2) True b_def m1_def] obtain c where c: "free_map_ok m1"
      "bin_bytes m = bin_bytes m1 \<union> {b} \<times> {..<c}" "free_bytes m = free_bytes m1 \<union> {b} \<times> {..<c}"
      "bin_bytes m1 \<inter> {b} \<times> UNIV = {}" by blast
    have "reclaim_free_tail_bins m1 (acc @ [b]) = (m', bins)"
      using 1(3) True unfolding reclaim_free_tail_bins.simps [of m] b_def [symmetric] m1_def [symmetric] by simp
    with 1(1) [OF True, folded b_def, folded m1_def, OF c(1)]
    have IH: "free_map_ok m'" "bin_bytes m' \<subseteq> bin_bytes m1"
      "bin_bytes m1 - bin_bytes m' \<subseteq> free_bytes m1" "free_bytes m' = free_bytes m1 \<inter> bin_bytes m'"
      by blast+
    have "bin_bytes m' \<subseteq> bin_bytes m" using IH(2) c(2) by blast
    moreover have "bin_bytes m - bin_bytes m' \<subseteq> free_bytes m" using IH(3) unfolding c(2,3) by blast
    moreover have "{b} \<times> {..<c} \<inter> bin_bytes m' = {}" using IH(2) c(4) by blast
    ultimately show ?thesis using IH(1,4) unfolding c(3) by (simp add: Int_Un_distrib2)
  qed
qed

interpretation bins: byte_allocator free_map_ok free_bytes bin_bytes loc_bytes
  "\<lambda>m len m' l. allocate m len = (m', Ok (Some l))" "\<lambda>m l m'. 0 < loc_len l \<and> release m l = Ok m'"
  "\<lambda>m m'. \<exists>acc bins. reclaim_free_tail_bins m acc = (m', bins)"
proof
  fix m len m' l
  assume "free_map_ok m" "allocate m len = (m', Ok (Some l))"
  note law = allocate_law [OF this]
  then show "free_map_ok m' \<and> bin_bytes m \<subseteq> bin_bytes m'
      \<and> loc_bytes l \<subseteq> free_bytes m \<union> (bin_bytes m' - bin_bytes m)
      \<and> free_bytes m' = free_bytes m \<union> (bin_bytes m' - bin_bytes m) - loc_bytes l" by blast
  from law show "loc_bytes l \<noteq> {}" by (auto simp: loc_bytes_def)
next
  fix m l m'
  assume "free_map_ok m" "loc_bytes l \<subseteq> bin_bytes m" "0 < loc_len l \<and> release m l = Ok m'"
  then show "free_map_ok m' \<and> bin_bytes m' = bin_bytes m \<and> free_bytes m' = free_bytes m \<union> loc_bytes l"
    using release_law [of m l] by auto
next
  fix m m'
  assume "free_map_ok m" "\<exists>acc bins. reclaim_free_tail_bins m acc = (m', bins)"
  then show "free_map_ok m' \<and> bin_bytes m' \<subseteq> bin_bytes m \<and> bin_bytes m - bin_bytes m' \<subseteq> free_bytes m
      \<and> free_bytes m' = free_bytes m \<inter> bin_bytes m'" using reclaim_law by blast
qed

end
