(* ===== verification/Storage_Bin_Rebuild.thy ===== *)
theory Storage_Bin_Rebuild
  imports Storage_Bin_Props "HOL-Library.Multiset"
begin

text \<open>
  Rebuilding the free map from the entries of the index: the entries must be disjoint, the gaps
  between them become free, and the bins that no entry names become neither.
\<close>

section \<open>Symmetric relations on lists\<close>

lemma sorted_wrt_sym_mset:
  assumes "\<And>a b. P a b \<Longrightarrow> P b a" and "sorted_wrt P xs" and "mset xs = mset ys"
  shows "sorted_wrt P ys"
  using assms(2,3)
proof (induction ys arbitrary: xs)
  case (Cons y ys)
  from Cons.prems(2) have "y \<in> set xs" by (metis list.set_intros(1) mset_eq_setD)
  then obtain a b where xs: "xs = a @ y # b" by (auto simp: in_set_conv_decomp)
  have "sorted_wrt P (a @ b)" "\<forall>z \<in> set (a @ b). P y z"
    using Cons.prems(1) assms(1) by (auto simp: xs sorted_wrt_append)
  moreover have *: "mset (a @ b) = mset ys" using Cons.prems(2) by (simp add: xs)
  ultimately show ?case
    using Cons.IH [of "a @ b"] mset_eq_setD [OF *] by auto
qed simp

lemma sorted_wrt_groups:
  assumes "\<And>b. sorted_wrt P (filter (\<lambda>x. f x = b) xs)"
  shows "sorted_wrt (\<lambda>x y. f x = f y \<longrightarrow> P x y) xs"
  using assms
proof (induction xs)
  case (Cons x xs)
  have "sorted_wrt P (filter (\<lambda>x. f x = b) xs)" for b
    using Cons.prems [of b] by (cases "f x = b") auto
  moreover have "P x y" if "y \<in> set xs" "f x = f y" for y
    using Cons.prems [of "f x"] that by simp
  ultimately show ?case using Cons.IH by simp
qed simp

section \<open>The gaps of one bin\<close>

lemma fill_gaps_Ok:
  assumes "free_map_ok m" and "bin_capacity m b = Some c" and "b < next_bin_id m"
    and "\<forall>r \<in> set rs. 0 < fr_len r \<and> range_end r \<le> c" and "cur \<le> c"
    and "fill_gaps b m cur rs = Ok (m', cur')"
  shows "free_map_ok m' \<and> next_bin_id m' = next_bin_id m \<and> bin_capacity m' = bin_capacity m
    \<and> sorted_wrt (\<lambda>r s. range_end r \<le> fr_offset s) rs \<and> cur \<le> cur' \<and> cur' \<le> c
    \<and> ranges_bytes rs \<subseteq> {cur..<cur'} \<and> (\<forall>r \<in> set rs. cur \<le> fr_offset r)
    \<and> free_bytes m' = free_bytes m \<union> {b} \<times> ({cur..<cur'} - ranges_bytes rs)"
  using assms
proof (induction rs arbitrary: m cur)
  case (Cons r rs)
  have r: "cur \<le> fr_offset r" "0 < fr_len r" "range_end r \<le> c"
    using Cons.prems(4,6) by (auto split: if_splits)
  have sat: "saturating_add (fr_offset r) (fr_len r) = range_end r"
    using r(3) bin_capacity_u64 [OF Cons.prems(1,2)] by (simp add: saturating_add_exact range_end_def)
  let ?g = "\<lparr>fr_offset = cur, fr_len = fr_offset r - cur\<rparr>"
  have g: "range_end ?g = fr_offset r" "range_bytes ?g = {cur..<fr_offset r}"
    using r(1) by (simp_all add: range_end_def range_bytes_def)
  have "range_end ?g \<le> c" using r by (simp add: g range_end_def)
  from insert_free_range_ok [OF Cons.prems(1,2,3) this] g r(1)
  obtain m1 where m1: "(if fr_offset r > cur then insert_free_range m b ?g else Ok m) = Ok m1"
    "free_map_ok m1" "next_bin_id m1 = next_bin_id m" "bin_capacity m1 = bin_capacity m"
    "free_bytes m1 = free_bytes m \<union> {b} \<times> {cur..<fr_offset r}"
    using Cons.prems(1) by (cases "fr_offset r > cur") auto
  have "fill_gaps b m1 (range_end r) rs = Ok (m', cur')"
    using Cons.prems(6) r(1) m1(1) sat by simp
  then have IH: "free_map_ok m' \<and> next_bin_id m' = next_bin_id m1 \<and> bin_capacity m' = bin_capacity m1
    \<and> sorted_wrt (\<lambda>r s. range_end r \<le> fr_offset s) rs \<and> range_end r \<le> cur' \<and> cur' \<le> c
    \<and> ranges_bytes rs \<subseteq> {range_end r..<cur'} \<and> (\<forall>s \<in> set rs. range_end r \<le> fr_offset s)
    \<and> free_bytes m' = free_bytes m1 \<union> {b} \<times> ({range_end r..<cur'} - ranges_bytes rs)"
    using Cons.prems m1 r(3) by (intro Cons.IH) auto
  have le: "fr_offset r \<le> range_end r" by (simp add: range_end_def)
  have sub: "ranges_bytes rs \<subseteq> {range_end r..<cur'}" and end_le: "range_end r \<le> cur'" using IH by auto
  have "{cur..<fr_offset r} \<union> ({range_end r..<cur'} - ranges_bytes rs) = {cur..<cur'} - ranges_bytes (r # rs)"
    (is "?L = ?R")
  proof (rule set_eqI)
    fix i
    show "i \<in> ?L \<longleftrightarrow> i \<in> ?R"
      using sub r(1) le end_le by (auto simp: range_bytes_def subset_iff)
  qed
  then have "free_bytes m' = free_bytes m \<union> {b} \<times> ({cur..<cur'} - ranges_bytes (r # rs))"
    using IH m1(5) by (simp only: Un_assoc Sigma_Un_distrib2 [symmetric])
  moreover have "ranges_bytes (r # rs) \<subseteq> {cur..<cur'}"
    using sub r(1) le end_le by (auto simp: range_bytes_def subset_iff)
  ultimately show ?case
    using IH m1(3,4) r(1) le by (auto simp: order_trans)
qed auto

lemma fill_bin_Ok:
  assumes "free_map_ok m" and "bin_capacity m b = Some c" and "b < next_bin_id m"
    and "\<forall>r \<in> set rs. 0 < fr_len r \<and> range_end r \<le> c" and "fill_bin m (b, rs) = Ok m'"
  shows "free_map_ok m' \<and> next_bin_id m' = next_bin_id m \<and> bin_capacity m' = bin_capacity m
    \<and> sorted_wrt (\<lambda>r s. range_bytes r \<inter> range_bytes s = {}) rs
    \<and> free_bytes m' = free_bytes m \<union> {b} \<times> ({..<c} - ranges_bytes rs)"
proof -
  let ?s = "sort_key fr_offset rs"
  from assms(2,5) obtain m1 cur where gaps: "fill_gaps b m 0 ?s = Ok (m1, cur)"
    and last: "(if cur < c then insert_free_range m1 b \<lparr>fr_offset = cur, fr_len = c - cur\<rparr> else Ok m1) = Ok m'"
    by (auto simp: fill_bin_def result_simps)
  have s: "ranges_bytes ?s = ranges_bytes rs" by (simp add: ranges_bytes_def)
  from fill_gaps_Ok [OF assms(1-3) _ _ gaps] assms(4)
  have m1: "free_map_ok m1" "next_bin_id m1 = next_bin_id m" "bin_capacity m1 = bin_capacity m"
    "sorted_wrt (\<lambda>r s. range_end r \<le> fr_offset s) ?s" "cur \<le> c" "ranges_bytes rs \<subseteq> {0..<cur}"
    "free_bytes m1 = free_bytes m \<union> {b} \<times> ({0..<cur} - ranges_bytes rs)"
    by (simp_all add: s)
  have "sorted_wrt (\<lambda>r s. range_bytes r \<inter> range_bytes s = {}) ?s"
    using m1(4) by (rule sorted_wrt_mono_rel [rotated]) (auto simp: range_bytes_def)
  then have disj: "sorted_wrt (\<lambda>r s. range_bytes r \<inter> range_bytes s = {}) rs"
    by (rule sorted_wrt_sym_mset [rotated]) auto
  let ?g = "\<lparr>fr_offset = cur, fr_len = c - cur\<rparr>"
  have g: "range_end ?g = c" "range_bytes ?g = {cur..<c}"
    using m1(5) by (simp_all add: range_end_def range_bytes_def)
  have "bin_capacity m1 b = Some c" "b < next_bin_id m1" using assms(2,3) m1(2,3) by simp_all
  from insert_free_range_ok [OF m1(1) this, of ?g] g last m1(5)
  have "free_map_ok m'" "next_bin_id m' = next_bin_id m1" "bin_capacity m' = bin_capacity m1"
    "free_bytes m' = free_bytes m1 \<union> {b} \<times> {cur..<c}"
    using m1(1) by (auto split: if_splits)
  moreover have "({0..<cur} - ranges_bytes rs) \<union> {cur..<c} = {..<c} - ranges_bytes rs"
    using m1(5,6) by auto
  ultimately show ?thesis
    using m1 disj by (simp add: Un_assoc Sigma_Un_distrib2 [symmetric])
qed

lemma fill_bins_Ok:
  assumes "free_map_ok m" and "distinct (map fst bins)"
    and "\<forall>(b, rs) \<in> set bins. b < next_bin_id m \<and> (\<exists>c. bin_capacity m b = Some c
      \<and> (\<forall>r \<in> set rs. 0 < fr_len r \<and> range_end r \<le> c))"
    and "fill_bins m bins = Ok m'"
  shows "free_map_ok m' \<and> next_bin_id m' = next_bin_id m \<and> bin_capacity m' = bin_capacity m
    \<and> (\<forall>(b, rs) \<in> set bins. sorted_wrt (\<lambda>r s. range_bytes r \<inter> range_bytes s = {}) rs)
    \<and> free_bytes m' = free_bytes m \<union>
        {(b, i). \<exists>rs c. (b, rs) \<in> set bins \<and> bin_capacity m b = Some c \<and> i < c \<and> i \<notin> ranges_bytes rs}"
  using assms
proof (induction bins arbitrary: m)
  case (Cons bin bins)
  obtain b rs where bin: "bin = (b, rs)" by (cases bin)
  obtain c where c: "b < next_bin_id m" "bin_capacity m b = Some c"
    "\<forall>r \<in> set rs. 0 < fr_len r \<and> range_end r \<le> c" using Cons.prems(3) by (auto simp: bin)
  obtain m1 where f: "fill_bin m (b, rs) = Ok m1" "fill_bins m1 bins = Ok m'"
    using Cons.prems(4) by (auto simp: bin result_simps)
  from fill_bin_Ok [OF Cons.prems(1) c(2,1,3) f(1)] have m1: "free_map_ok m1" "next_bin_id m1 = next_bin_id m"
    "bin_capacity m1 = bin_capacity m" "sorted_wrt (\<lambda>r s. range_bytes r \<inter> range_bytes s = {}) rs"
    "free_bytes m1 = free_bytes m \<union> {b} \<times> ({..<c} - ranges_bytes rs)" by blast+
  from Cons.IH [OF m1(1) _ _ f(2)] Cons.prems(2,3) m1(2,3)
  have IH: "free_map_ok m'" "next_bin_id m' = next_bin_id m1" "bin_capacity m' = bin_capacity m1"
    "\<forall>(b, rs) \<in> set bins. sorted_wrt (\<lambda>r s. range_bytes r \<inter> range_bytes s = {}) rs"
    "free_bytes m' = free_bytes m1 \<union>
      {(b, i). \<exists>rs c. (b, rs) \<in> set bins \<and> bin_capacity m1 b = Some c \<and> i < c \<and> i \<notin> ranges_bytes rs}"
    by simp_all
  then show ?case
    using m1 c(2) by (auto simp: bin)
qed auto

section \<open>The ranges in use\<close>

definition loc_range :: "object_location \<Rightarrow> free_range" where
  "loc_range l = \<lparr>fr_offset = loc_offset l, fr_len = loc_len l\<rparr>"

definition ranges_of :: "(nat, free_range list) rbt \<Rightarrow> nat \<Rightarrow> free_range list" where
  "ranges_of t b = (case RBT.lookup t b of None \<Rightarrow> [] | Some rs \<Rightarrow> rs)"

definition location_fits :: "free_map \<Rightarrow> object_location \<Rightarrow> bool" where
  "location_fits m l \<longleftrightarrow>
     0 < loc_len l \<and> (\<exists>c. bin_capacity m (loc_bin_id l) = Some c \<and> range_end (loc_range l) \<le> c)"

lemma collect_occupied_Ok:
  assumes "bin_size_bytes m \<le> u64_max" and "max_size_bytes m \<le> u64_max"
    and "collect_occupied (bin_size_bytes m) m occ entries = Ok (m1, occ1)"
  shows "\<exists>n. m1 = m\<lparr>next_bin_id := n\<rparr> \<and> next_bin_id m \<le> n
    \<and> (\<forall>e \<in> set entries. location_fits m (entry_location e) \<and> loc_bin_id (entry_location e) < n)
    \<and> (\<forall>b < n. b < next_bin_id m \<or> (\<exists>e \<in> set entries. b \<le> loc_bin_id (entry_location e)))
    \<and> (\<forall>b. ranges_of occ1 b = ranges_of occ b
         @ map loc_range (filter (\<lambda>l. loc_bin_id l = b) (map entry_location entries)))
    \<and> (\<forall>b. RBT.lookup occ1 b = Some [] \<longrightarrow> RBT.lookup occ b = Some [])"
  using assms
proof (induction entries arbitrary: m occ)
  case Nil
  then show ?case by (intro exI [of _ "next_bin_id m"]) simp
next
  case (Cons e entries)
  define l where "l = entry_location e"
  define n where "n = max (next_bin_id m) (Suc (loc_bin_id l))"
  define occ' where "occ' = RBT.insert (loc_bin_id l) (ranges_of occ (loc_bin_id l) @ [loc_range l]) occ"
  obtain c where l: "0 < loc_len l" "loc_offset l + loc_len l \<le> bin_size_bytes m"
    "bin_capacity m (loc_bin_id l) = Some c" "saturating_add (loc_offset l) (loc_len l) \<le> c"
    and rest: "collect_occupied (bin_size_bytes m)
      (m\<lparr>next_bin_id := max (next_bin_id m) (saturating_add (loc_bin_id l) 1)\<rparr>) occ' entries = Ok (m1, occ1)"
    using Cons.prems(3)
    by (auto simp: location_validate_def result_simps l_def occ'_def ranges_of_def loc_range_def not_less
        split: option.splits if_splits)
  have "loc_offset l + loc_len l \<le> u64_max" using l(2) Cons.prems(1) by linarith
  then have e: "range_end (loc_range l) \<le> c"
    using l(4) by (simp add: saturating_add_exact range_end_def loc_range_def)
  have "0 < bin_size_bytes m" using l(1,2) by linarith
  then have "loc_bin_id l * 1 \<le> loc_bin_id l * bin_size_bytes m" by (intro mult_le_mono2) simp
  moreover have "loc_bin_id l * bin_size_bytes m < max_size_bytes m" using l(3) by (simp add: bin_capacity_Some)
  ultimately have "Suc (loc_bin_id l) \<le> u64_max" using Cons.prems(2) by linarith
  then have "collect_occupied (bin_size_bytes (m\<lparr>next_bin_id := n\<rparr>)) (m\<lparr>next_bin_id := n\<rparr>) occ' entries = Ok (m1, occ1)"
    using rest by (simp add: saturating_add_exact n_def)
  from Cons.IH [OF _ _ this] Cons.prems(1,2) obtain k where IH: "m1 = m\<lparr>next_bin_id := k\<rparr>" "n \<le> k"
    "\<forall>e \<in> set entries. location_fits m (entry_location e) \<and> loc_bin_id (entry_location e) < k"
    "\<forall>b < k. b < n \<or> (\<exists>e \<in> set entries. b \<le> loc_bin_id (entry_location e))"
    "\<forall>b. ranges_of occ1 b = ranges_of occ' b
       @ map loc_range (filter (\<lambda>l. loc_bin_id l = b) (map entry_location entries))"
    "\<forall>b. RBT.lookup occ1 b = Some [] \<longrightarrow> RBT.lookup occ' b = Some []"
    by (auto simp: location_fits_def)
  have "location_fits m l" using l(1,3) e by (auto simp: location_fits_def)
  moreover have "loc_bin_id l < k" using IH(2) by (simp add: n_def)
  moreover have "b < next_bin_id m \<or> b \<le> loc_bin_id l \<or> (\<exists>e \<in> set entries. b \<le> loc_bin_id (entry_location e))"
    if "b < k" for b using IH(4) that by (auto simp: n_def less_max_iff_disj less_Suc_eq_le)
  moreover have "ranges_of occ' b = ranges_of occ b @ (if loc_bin_id l = b then [loc_range l] else [])" for b
    by (simp add: occ'_def ranges_of_def)
  moreover have "RBT.lookup occ b = Some []" if "RBT.lookup occ' b = Some []" for b
    using that by (simp add: occ'_def split: if_splits)
  ultimately show ?case
    using IH by (intro exI [of _ k]) (auto simp: l_def [symmetric] n_def)
qed

section \<open>The rebuilt map\<close>

definition storage_sizes_ok :: "storage_bin_layout \<Rightarrow> bool" where
  "storage_sizes_ok layout \<longleftrightarrow>
     layout_bin_size_bytes layout \<le> u64_max \<and> layout_max_size_bytes layout \<le> u64_max"

text \<open>The bytes of the bins that no entry names although a later bin is in use.\<close>

definition unnamed_bin_bytes :: "free_map \<Rightarrow> index_entry list \<Rightarrow> (nat \<times> nat) set" where
  "unnamed_bin_bytes m entries =
     {(b, i) \<in> bin_bytes m. \<forall>e \<in> set entries. loc_bin_id (entry_location e) \<noteq> b}"

lemma loc_bytes_range: "loc_bytes l = {loc_bin_id l} \<times> range_bytes (loc_range l)"
  by (simp add: loc_bytes_def range_bytes_def range_end_def loc_range_def)

definition locs_in :: "index_entry list \<Rightarrow> nat \<Rightarrow> object_location list" where
  "locs_in entries b = filter (\<lambda>l. loc_bin_id l = b) (map entry_location entries)"

definition locs_ok :: "free_map \<Rightarrow> nat \<Rightarrow> index_entry list \<Rightarrow> bool" where
  "locs_ok m n entries \<longleftrightarrow>
     (\<forall>b. locs_in entries b \<noteq> [] \<longrightarrow> b < n \<and> (\<exists>c. bin_capacity m b = Some c
        \<and> (\<forall>l \<in> set (locs_in entries b). 0 < loc_len l \<and> range_end (loc_range l) \<le> c)))"

lemma collect_occupied_state:
  assumes "storage_sizes_ok layout"
    and "collect_occupied (layout_bin_size_bytes layout) (free_map_new layout) RBT.empty entries = Ok (m1, occ)"
  shows "free_map_ok m1" "\<And>b. free_ranges m1 b = []" "bin_capacity m1 = bin_capacity (free_map_new layout)"
    "locs_ok m1 (next_bin_id m1) entries"
    "\<And>b rs. RBT.lookup occ b = Some rs \<longleftrightarrow> locs_in entries b \<noteq> [] \<and> rs = map loc_range (locs_in entries b)"
proof -
  let ?m0 = "free_map_new layout"
  have sizes: "bin_size_bytes ?m0 \<le> u64_max" "max_size_bytes ?m0 \<le> u64_max"
    using assms(1) by (simp_all add: storage_sizes_ok_def free_map_new_def)
  have "collect_occupied (bin_size_bytes ?m0) ?m0 RBT.empty entries = Ok (m1, occ)"
    using assms(2) by (simp add: free_map_new_def)
  from collect_occupied_Ok [OF sizes this] obtain n where m1: "m1 = ?m0\<lparr>next_bin_id := n\<rparr>"
    and fits: "\<forall>e \<in> set entries. location_fits ?m0 (entry_location e) \<and> loc_bin_id (entry_location e) < n"
    and cover: "\<forall>b < n. \<exists>e \<in> set entries. b \<le> loc_bin_id (entry_location e)"
    and ranges: "\<forall>b. ranges_of occ b = map loc_range (locs_in entries b)"
    and nonempty: "\<forall>b. RBT.lookup occ b \<noteq> Some []"
    by (auto simp: free_map_new_def ranges_of_def locs_in_def)
  show cap1: "bin_capacity m1 = bin_capacity ?m0" by (simp add: m1)
  have lk1: "RBT.lookup (free m1) b = None" for b by (simp add: m1 free_map_new_def)
  then show "free_ranges m1 b = []" for b by (simp add: free_ranges_def)
  have "bin_capacity ?m0 b \<noteq> None" if "b < n" for b
  proof -
    from cover that obtain e where e: "e \<in> set entries" "b \<le> loc_bin_id (entry_location e)" by blast
    then obtain c where "bin_capacity ?m0 (loc_bin_id (entry_location e)) = Some c"
      using fits by (auto simp: location_fits_def)
    from bin_capacity_mono [OF this e(2)] show ?thesis .
  qed
  then show "free_map_ok m1"
    using sizes unfolding free_map_ok_def lk1 cap1 by (simp add: m1)
  show "RBT.lookup occ b = Some rs \<longleftrightarrow> locs_in entries b \<noteq> [] \<and> rs = map loc_range (locs_in entries b)" for b rs
    using spec [OF ranges, of b] spec [OF nonempty, of b]
    by (cases "RBT.lookup occ b") (auto simp: ranges_of_def)
  have in_b: "location_fits ?m0 l \<and> b < n \<and> loc_bin_id l = b" if "l \<in> set (locs_in entries b)" for l b
    using that fits by (auto simp: locs_in_def)
  show "locs_ok m1 (next_bin_id m1) entries"
    unfolding locs_ok_def cap1
  proof (intro allI impI)
    fix b assume "locs_in entries b \<noteq> []"
    then obtain l0 where "l0 \<in> set (locs_in entries b)" by (cases "locs_in entries b") auto
    from in_b [OF this] obtain c where c: "bin_capacity ?m0 b = Some c" "b < n" by (auto simp: location_fits_def)
    have "0 < loc_len l \<and> range_end (loc_range l) \<le> c" if "l \<in> set (locs_in entries b)" for l
      using in_b [OF that] c(1) by (auto simp: location_fits_def)
    then show "b < next_bin_id m1 \<and> (\<exists>c. bin_capacity ?m0 b = Some c
        \<and> (\<forall>l \<in> set (locs_in entries b). 0 < loc_len l \<and> range_end (loc_range l) \<le> c))"
      using c by (simp add: m1)
  qed
qed

lemma from_occupied_state:
  assumes "storage_sizes_ok layout" and "from_occupied layout entries = Ok m"
  shows "free_map_ok m" "locs_ok m (next_bin_id m) entries"
    "\<And>b. sorted_wrt (\<lambda>a b. range_bytes (loc_range a) \<inter> range_bytes (loc_range b) = {}) (locs_in entries b)"
    "free_bytes m = {(b, i). locs_in entries b \<noteq> [] \<and> (\<exists>c. bin_capacity m b = Some c \<and> i < c)
      \<and> i \<notin> ranges_bytes (map loc_range (locs_in entries b))}"
proof -
  from assms(2) obtain m1 occ where
    collect: "collect_occupied (layout_bin_size_bytes layout) (free_map_new layout) RBT.empty entries = Ok (m1, occ)"
    and fill: "fill_bins m1 (RBT.entries occ) = Ok m"
    by (auto simp: from_occupied_def result_simps)
  note c = collect_occupied_state [OF assms(1) collect]
  have occ: "(b, rs) \<in> set (RBT.entries occ) \<longleftrightarrow> locs_in entries b \<noteq> [] \<and> rs = map loc_range (locs_in entries b)" for b rs
    unfolding lookup_entries by (rule c(5))
  have "\<forall>(b, rs) \<in> set (RBT.entries occ). b < next_bin_id m1 \<and> (\<exists>c. bin_capacity m1 b = Some c
      \<and> (\<forall>r \<in> set rs. 0 < fr_len r \<and> range_end r \<le> c))"
    using c(4) by (auto simp: occ locs_ok_def loc_range_def)
  note filled = fill_bins_Ok [OF c(1) RBT.distinct_entries this fill]
  then show "free_map_ok m" by blast
  from filled have same: "next_bin_id m = next_bin_id m1" "bin_capacity m = bin_capacity m1" by simp_all
  show "locs_ok m (next_bin_id m) entries" using c(4) by (simp add: locs_ok_def same)
  show "sorted_wrt (\<lambda>a b. range_bytes (loc_range a) \<inter> range_bytes (loc_range b) = {}) (locs_in entries b)" for b
  proof (cases "locs_in entries b = []")
    case False
    then have "(b, map loc_range (locs_in entries b)) \<in> set (RBT.entries occ)" by (simp add: occ)
    then have "sorted_wrt (\<lambda>r s. range_bytes r \<inter> range_bytes s = {}) (map loc_range (locs_in entries b))"
      using filled by blast
    then show ?thesis by (simp add: sorted_wrt_map)
  qed simp
  have "free_bytes m1 = {}" by (simp add: free_bytes_def c(2))
  then show "free_bytes m = {(b, i). locs_in entries b \<noteq> [] \<and> (\<exists>c. bin_capacity m b = Some c \<and> i < c)
      \<and> i \<notin> ranges_bytes (map loc_range (locs_in entries b))}"
    using filled by (auto simp: occ)
qed

lemma from_occupied_tiled:
  assumes "storage_sizes_ok layout" and "from_occupied layout entries = Ok m"
  shows "bins.tiled m (map entry_location entries) (unnamed_bin_bytes m entries)"
proof -
  note state = from_occupied_state [OF assms]
  have disj: "sorted_wrt (\<lambda>a b. loc_bytes a \<inter> loc_bytes b = {}) (map entry_location entries)"
  proof (rule sorted_wrt_mono_rel [OF _ sorted_wrt_groups [OF state(3) [unfolded locs_in_def]]])
    fix a b :: object_location
    assume "loc_bin_id a = loc_bin_id b \<longrightarrow> range_bytes (loc_range a) \<inter> range_bytes (loc_range b) = {}"
    then show "loc_bytes a \<inter> loc_bytes b = {}" by (auto simp: loc_bytes_range)
  qed
  have held: "\<Union> (loc_bytes ` set (map entry_location entries)) =
      {(b, i). i \<in> ranges_bytes (map loc_range (locs_in entries b))}"
    by (auto simp: loc_bytes_range ranges_bytes_def locs_in_def)
  have lost: "unnamed_bin_bytes m entries = {(b, i). (b, i) \<in> bin_bytes m \<and> locs_in entries b = []}"
    by (auto simp: unnamed_bin_bytes_def locs_in_def filter_empty_conv)
  have "(b, i) \<in> free_bytes m \<or> i \<in> ranges_bytes (map loc_range (locs_in entries b))
      \<or> ((b, i) \<in> bin_bytes m \<and> locs_in entries b = []) \<longleftrightarrow> (b, i) \<in> bin_bytes m" for b i
  proof (cases "locs_in entries b = []")
    case False
    then obtain c where "b < next_bin_id m" "bin_capacity m b = Some c"
      "\<forall>l \<in> set (locs_in entries b). range_end (loc_range l) \<le> c"
      using state(2) by (auto simp: locs_ok_def)
    then show ?thesis
      using False unfolding state(4) by (auto simp: bin_bytes_def ranges_bytes_def range_bytes_def)
  qed (simp add: state(4))
  then have "free_bytes m \<union> \<Union> (loc_bytes ` set (map entry_location entries)) \<union> unnamed_bin_bytes m entries = bin_bytes m"
    unfolding held lost by auto
  moreover have "free_bytes m \<inter> (\<Union> (loc_bytes ` set (map entry_location entries)) \<union> unnamed_bin_bytes m entries) = {}"
    "\<Union> (loc_bytes ` set (map entry_location entries)) \<inter> unnamed_bin_bytes m entries = {}"
    unfolding state(4) held lost by auto
  ultimately show ?thesis using disj state(1) by (simp add: bins.tiled_def)
qed

end
