(* ===== verification/Storage_Bin_Runs.thy ===== *)
theory Storage_Bin_Runs
  imports Storage_Bin_Rebuild
begin

text \<open>
  The life of a storage: rebuilt from the index, then any sequence of allocations, releases and tail
  reclaims. Live objects never overlap, every byte is accounted for, allocation fails only when
  nothing fits, release undoes it, and the bins an index does not name are lost.
\<close>

section \<open>Runs\<close>

text \<open>
  \<open>storage_run layout entries m live\<close>: the free map \<open>m\<close> and the objects \<open>live\<close> after some
  operations on the map rebuilt from \<open>entries\<close>; an empty index starts an empty storage. The map is
  changed under a mutex, so runs are sequences of whole operations.
\<close>

inductive storage_run ::
  "storage_bin_layout \<Rightarrow> index_entry list \<Rightarrow> free_map \<Rightarrow> object_location list \<Rightarrow> bool"
  for layout entries where
  rebuilt: "from_occupied layout entries = Ok m \<Longrightarrow>
    storage_run layout entries m (map entry_location entries)"
| allocated: "storage_run layout entries m live \<Longrightarrow> allocate m len = (m', Ok (Some l)) \<Longrightarrow>
    storage_run layout entries m' (l # live)"
| refused: "storage_run layout entries m live \<Longrightarrow> allocate m len = (m', Ok None) \<Longrightarrow>
    storage_run layout entries m' live"
| rejected: "storage_run layout entries m live \<Longrightarrow> allocate m len = (m', Err e) \<Longrightarrow>
    storage_run layout entries m' live"
| released: "storage_run layout entries m (xs @ l # ys) \<Longrightarrow> release m l = Ok m' \<Longrightarrow>
    storage_run layout entries m' (xs @ ys)"
| reclaimed: "storage_run layout entries m live \<Longrightarrow> reclaim_free_tail_bins m [] = (m', bins) \<Longrightarrow>
    storage_run layout entries m' live"

lemma allocate_unchanged:
  assumes "free_map_ok m" and "allocate m len = (m', r)" and "\<And>l. r \<noteq> Ok (Some l)"
  shows "m' = m"
  using allocate_outcome [OF assms(1), of len] assms(2,3)
  by (cases "len = 0") (auto simp: allocate_def split: if_splits)

lemma storage_run_tiled:
  assumes "storage_run layout entries m live" and "storage_sizes_ok layout"
  shows "\<exists>m0. from_occupied layout entries = Ok m0
    \<and> bins.tiled m live (unnamed_bin_bytes m0 entries) \<and> (\<forall>l \<in> set live. 0 < loc_len l)"
  using assms(1)
proof induction
  case (rebuilt m)
  from from_occupied_state(2) [OF assms(2) rebuilt]
  have "0 < loc_len (entry_location e)" if "e \<in> set entries" for e
    using that unfolding locs_ok_def locs_in_def
    by (fastforce simp: filter_empty_conv dest: spec [of _ "loc_bin_id (entry_location e)"])
  then show ?case using rebuilt from_occupied_tiled [OF assms(2) rebuilt] by auto
next
  case (allocated m live len m' l)
  from allocated(2,3) bins.tiled_alloc [of m live _ len m' l] allocate_law [of m len m' l] show ?case
    by (auto simp: bins.tiled_def [of m])
next
  case (refused m live len m')
  then show ?case using allocate_unchanged [of m len m' "Ok None"] by (auto simp: bins.tiled_def [of m])
next
  case (rejected m live len m' e)
  then show ?case using allocate_unchanged [of m len m' "Err e"] by (auto simp: bins.tiled_def [of m])
next
  case (released m xs l ys m')
  then show ?case using bins.tiled_dealloc [of m xs l ys _ m'] by auto
next
  case (reclaimed m live m' bins)
  then show ?case using bins.tiled_shrink [of m live _ m'] by blast
qed

text \<open>
  C26. Live objects never share a byte: after any sequence of allocations, releases and reclaims on
  an empty or a rebuilt storage, the locations held are pairwise disjoint, every one lies inside a bin
  of the storage and outside the free ranges, and every byte of a bin lies inside the configured
  budget.
\<close>

theorem storage_objects_disjoint:
  assumes "storage_sizes_ok layout" and "storage_run layout entries m live"
  shows "sorted_wrt (\<lambda>a b. loc_bytes a \<inter> loc_bytes b = {}) live
    \<and> (\<forall>l \<in> set live. loc_bytes l \<noteq> {} \<and> loc_bytes l \<subseteq> bin_bytes m \<and> loc_bytes l \<inter> free_bytes m = {})
    \<and> (\<forall>(b, i) \<in> bin_bytes m. b * bin_size_bytes m + i < max_size_bytes m)"
proof -
  from storage_run_tiled [OF assms(2,1)] obtain lost where
    *: "bins.tiled m live lost" "\<forall>l \<in> set live. 0 < loc_len l" by blast
  have "b * bin_size_bytes m + i < max_size_bytes m" if "(b, i) \<in> bin_bytes m" for b i
    using that by (auto simp: bin_bytes_def bin_capacity_Some)
  moreover have "loc_bytes l \<noteq> {}" if "l \<in> set live" for l
    using *(2) that by (auto simp: loc_bytes_def)
  ultimately show ?thesis
    using *(1) by (auto simp: bins.tiled_def)
qed

lemma entries_empty: "RBT.entries (RBT.empty :: (nat, free_range list) rbt) = []" (is "?es = []")
proof -
  have "e \<notin> set ?es" for e
    using lookup_entries [of "fst e" "snd e" RBT.empty] by simp
  then show ?thesis by (cases ?es) auto
qed

text \<open>A small storage of two bins, and its state after two allocations.\<close>

abbreviation small_layout :: storage_bin_layout where
  "small_layout \<equiv> \<lparr>layout_root = ''/cache'', layout_manifest_path = [], layout_data_dir = [],
     layout_bin_size_bytes = 8, layout_max_size_bytes = 14, layout_preallocate = False, layout_max_open_bins = 2\<rparr>"

abbreviation small_map :: free_map where
  "small_map \<equiv> fst (allocate (fst (allocate (free_map_new small_layout) 3)) 4)"

abbreviation small_live :: "object_location list" where
  "small_live \<equiv> [\<lparr>loc_bin_id = 0, loc_offset = 3, loc_len = 4\<rparr>, \<lparr>loc_bin_id = 0, loc_offset = 0, loc_len = 3\<rparr>]"

lemma small_sizes_ok: "storage_sizes_ok small_layout"
  by code_simp

lemma small_run: "storage_run small_layout [] small_map small_live"
proof -
  let ?m0 = "free_map_new small_layout" and ?m1 = "fst (allocate (free_map_new small_layout) 3)"
  have "from_occupied small_layout [] = Ok ?m0"
    by (simp add: from_occupied_def free_map_new_def entries_empty)
  then have "storage_run small_layout [] ?m0 []" using rebuilt by fastforce
  moreover have "snd (allocate ?m0 3) = Ok (Some \<lparr>loc_bin_id = 0, loc_offset = 0, loc_len = 3\<rparr>)" by code_simp
  ultimately have "storage_run small_layout [] ?m1 [\<lparr>loc_bin_id = 0, loc_offset = 0, loc_len = 3\<rparr>]"
    by (metis allocated prod.collapse)
  moreover have "snd (allocate ?m1 4) = Ok (Some \<lparr>loc_bin_id = 0, loc_offset = 3, loc_len = 4\<rparr>)" by code_simp
  ultimately show ?thesis by (metis allocated prod.collapse)
qed

theorem storage_objects_disjoint_witness:
  "loc_bytes (small_live ! 0) \<inter> loc_bytes (small_live ! 1) = {} \<and> loc_bytes (small_live ! 1) \<subseteq> bin_bytes small_map"
  using storage_objects_disjoint [OF small_sizes_ok small_run] by simp

section \<open>Allocation and release\<close>

text \<open>
  C27. Allocation is complete: a request of a positive length never fails with an error, it returns
  a location of that length exactly when the length is at most a bin and either some free range or
  the next bin within the budget is long enough, and otherwise leaves the map unchanged.
\<close>

theorem allocate_complete:
  assumes "free_map_ok m" and "0 < len"
  shows "if len \<le> bin_size_bytes m \<and> fits m len
    then \<exists>m' l. allocate m len = (m', Ok (Some l)) \<and> loc_len l = len \<and> free_map_ok m'
    else allocate m len = (m, Ok None)"
  using allocate_outcome [OF assms] allocate_law [OF assms(1)] by (auto split: if_splits)

lemma small_map_ok: "free_map_ok small_map"
  using storage_run_tiled [OF small_run small_sizes_ok] by (auto simp: bins.tiled_def)

theorem allocate_complete_witness:
  "(\<exists>m' l. allocate small_map 6 = (m', Ok (Some l)) \<and> loc_len l = 6 \<and> free_map_ok m')
   \<and> allocate small_map 7 = (small_map, Ok None)"
proof -
  have "snd (allocate small_map 6) \<noteq> Ok None" "snd (allocate small_map 7) = Ok None" by code_simp+
  then show ?thesis
    using allocate_complete [OF small_map_ok, of 6] allocate_complete [OF small_map_ok, of 7]
    by (auto split: if_splits)
qed

lemma free_ranges_determined:
  assumes "free_map_ok m" and "free_map_ok m'" and "\<And>i. (b, i) \<in> free_bytes m \<longleftrightarrow> (b, i) \<in> free_bytes m'"
  shows "free_ranges m b = free_ranges m' b"
proof -
  have c: "coalesced (free_ranges m b)" if "free_map_ok m" for m
    using that by (auto simp: free_ranges_def free_map_ok_def bin_ok_def split: option.splits)
  from assms(3) have "ranges_bytes (free_ranges m b) = ranges_bytes (free_ranges m' b)"
    by (auto simp: free_bytes_def)
  with c [OF assms(1)] c [OF assms(2)] show ?thesis by (rule coalesced_unique)
qed

lemma insert_free_range_same:
  "insert_free_range m b r = Ok m' \<Longrightarrow> bin_size_bytes m' = bin_size_bytes m \<and> max_size_bytes m' = max_size_bytes m"
  by (auto simp: insert_free_range_def result_simps split: if_splits option.splits)

lemma allocate_same:
  assumes "allocate m len = (m', r)"
  shows "bin_capacity m' = bin_capacity m"
proof -
  have fresh: "bin_size_bytes m' = bin_size_bytes m \<and> max_size_bytes m' = max_size_bytes m"
    if "allocate_fresh m len = (m', r)" for m
    using that by (auto simp: allocate_fresh_def Let_def split: option.splits if_splits result.splits
        dest!: insert_free_range_same)
  have "bin_size_bytes m' = bin_size_bytes m \<and> max_size_bytes m' = max_size_bytes m"
    using assms
    by (auto simp: allocate_def allocate_from_free_ranges_def Let_def dest!: fresh
        split: if_splits option.splits prod.splits)
  then show ?thesis by (auto simp: bin_capacity_def fun_eq_iff split: option.split)
qed

text \<open>
  C28. Releasing a location just allocated succeeds and gives back the very free ranges the map had:
  the pieces are merged again, bin by bin.
\<close>

theorem release_undoes_allocate:
  assumes "free_map_ok m" and "allocate m len = (m1, Ok (Some l))"
  shows "\<exists>m2. release m1 l = Ok m2 \<and> free_map_ok m2 \<and> (\<forall>b < next_bin_id m. free_ranges m2 b = free_ranges m b)"
proof -
  from allocate_law [OF assms] have m1: "free_map_ok m1" "0 < loc_len l" "bin_bytes m \<subseteq> bin_bytes m1"
    "loc_bytes l \<subseteq> free_bytes m \<union> (bin_bytes m1 - bin_bytes m)"
    "free_bytes m1 = (free_bytes m \<union> (bin_bytes m1 - bin_bytes m)) - loc_bytes l" by auto
  have "loc_bytes l \<subseteq> bin_bytes m1"
    using m1(3,4) free_bytes_subset [OF assms(1)] by blast
  from release_law [OF m1(1) this m1(2)] obtain m2 where m2: "release m1 l = Ok m2" "free_map_ok m2"
    "free_bytes m2 = free_bytes m1 \<union> loc_bytes l" by blast
  then have "free_bytes m2 = free_bytes m \<union> (bin_bytes m1 - bin_bytes m)" using m1(4,5) by blast
  moreover have "(b, i) \<notin> bin_bytes m1 - bin_bytes m" if "b < next_bin_id m" for b i
    using that by (auto simp: bin_bytes_def allocate_same [OF assms(2)])
  ultimately have "free_ranges m2 b = free_ranges m b" if "b < next_bin_id m" for b
    using that by (intro free_ranges_determined [OF m2(2) assms(1)]) auto
  with m2 show ?thesis by blast
qed

theorem release_undoes_allocate_witness:
  "\<exists>m2. release (fst (allocate small_map 1)) \<lparr>loc_bin_id = 0, loc_offset = 7, loc_len = 1\<rparr> = Ok m2
     \<and> free_ranges m2 0 = [\<lparr>fr_offset = 7, fr_len = 1\<rparr>]"
proof -
  have "snd (allocate small_map 1) = Ok (Some \<lparr>loc_bin_id = 0, loc_offset = 7, loc_len = 1\<rparr>)"
    and *: "0 < next_bin_id small_map" "free_ranges small_map 0 = [\<lparr>fr_offset = 7, fr_len = 1\<rparr>]"
    by code_simp+
  then have "allocate small_map 1 =
      (fst (allocate small_map 1), Ok (Some \<lparr>loc_bin_id = 0, loc_offset = 7, loc_len = 1\<rparr>))"
    by (metis prod.collapse)
  from release_undoes_allocate [OF small_map_ok this] * show ?thesis by metis
qed

section \<open>Accounting\<close>

lemma foldl_saturating_add: "foldl saturating_add a xs = min u64_max (a + sum_list xs)" if "a \<le> u64_max"
  using that
proof (induction xs arbitrary: a)
  case (Cons x xs)
  then show ?case by (simp add: saturating_add_def min_def add.assoc)
qed simp

lemma finite_range_bytes [simp]: "finite (range_bytes r)" "finite (ranges_bytes rs)" "finite (loc_bytes l)"
  by (simp_all add: range_bytes_def ranges_bytes_def loc_bytes_def)

lemma card_ranges_bytes: "coalesced rs \<Longrightarrow> card (ranges_bytes rs) = sum_list (map fr_len rs)"
proof (induction rs)
  case (Cons r rs)
  then have "range_bytes r \<inter> ranges_bytes rs = {}"
    by (fastforce simp: coalesced_Cons range_bytes_def ranges_bytes_def)
  with Cons show ?case
    by (simp add: card_Un_disjoint coalesced_Cons range_bytes_def [of r] range_end_def)
qed simp

lemma free_size_card:
  assumes "free_map_ok m"
  shows "finite (free_bytes m)" "card (free_bytes m) = sum_list (map fr_len (all_free_ranges m))"
proof -
  have entries: "coalesced rs" if "(b, rs) \<in> set (RBT.entries (free m))" for b rs
    using assms that by (auto simp: lookup_entries free_map_ok_def bin_ok_def)
  define part where "part = (\<lambda>(b, rs). {b :: nat} \<times> ranges_bytes rs)"
  have "free_bytes m = (\<Union>e \<in> set (RBT.entries (free m)). part e)"
    by (force simp: free_bytes_def free_ranges_def part_def lookup_entries split: option.splits)
  moreover have "finite (\<Union>e \<in> set es. part e) \<and> card (\<Union>e \<in> set es. part e) = sum_list (map fr_len (concat (map snd es)))"
    if "set es \<subseteq> set (RBT.entries (free m))" "distinct (map fst es)" for es
    using that
  proof (induction es)
    case (Cons e es)
    obtain b rs where e: "e = (b, rs)" by (cases e)
    have "part e \<inter> (\<Union>e \<in> set es. part e) = {}"
    proof (rule ccontr)
      assume "part e \<inter> (\<Union>e \<in> set es. part e) \<noteq> {}"
      then obtain b' rs' where "(b', rs') \<in> set es" "b' = b" by (auto simp: part_def e)
      with Cons.prems(2) show False by (force simp: e)
    qed
    moreover have "finite (part e)" "card (part e) = sum_list (map fr_len rs)"
      using Cons.prems(1) entries [of b rs] by (auto simp: part_def e card_cartesian_product card_ranges_bytes)
    ultimately show ?case
      using Cons by (simp add: card_Un_disjoint e)
  qed simp
  ultimately show "finite (free_bytes m)" "card (free_bytes m) = sum_list (map fr_len (all_free_ranges m))"
    using RBT.distinct_entries by (auto simp: all_free_ranges_def)
qed

lemma bin_bytes_card:
  assumes "free_map_ok m"
  shows "finite (bin_bytes m)" "card (bin_bytes m) = sum_list (List.map_filter (bin_capacity m) [0..<next_bin_id m])"
    "card (bin_bytes m) \<le> max_size_bytes m"
proof -
  have caps: "\<exists>c. bin_capacity m b = Some c" if "b < next_bin_id m" for b
    using assms that by (auto simp: free_map_ok_def)
  then have bins: "bin_bytes m = (SIGMA b:{..<next_bin_id m}. {..<the (bin_capacity m b)})"
    by (force simp: bin_bytes_def)
  show "finite (bin_bytes m)" by (simp add: bins)
  have "sum_list (List.map_filter (bin_capacity m) [0..<n]) = (\<Sum>b<n. the (bin_capacity m b))"
    if "n \<le> next_bin_id m" for n
    using that
  proof (induction n)
    case (Suc n)
    then show ?case using caps [of n] by (auto simp: map_filter_def)
  qed (simp add: map_filter_def)
  then show "card (bin_bytes m) = sum_list (List.map_filter (bin_capacity m) [0..<next_bin_id m])"
    by (simp add: bins)
  have "inj_on (\<lambda>(b, i). b * bin_size_bytes m + i) (bin_bytes m)"
  proof (rule inj_onI, clarify)
    fix b i b' i'
    assume "(b, i) \<in> bin_bytes m" "(b', i') \<in> bin_bytes m"
      and eq: "b * bin_size_bytes m + i = b' * bin_size_bytes m + i'"
    then have "i < bin_size_bytes m" "i' < bin_size_bytes m"
      by (auto simp: bin_bytes_def dest: bin_capacity_le)
    with eq show "b = b' \<and> i = i'"
      by (metis add.commute div_mult_self1 div_less add_0 mod_mult_self1 mod_less gr_implies_not0 not_gr_zero)
  qed
  moreover have "(\<lambda>(b, i). b * bin_size_bytes m + i) ` bin_bytes m \<subseteq> {..<max_size_bytes m}"
    by (auto simp: bin_bytes_def bin_capacity_Some)
  ultimately show "card (bin_bytes m) \<le> max_size_bytes m"
    using card_inj_on_le [of _ "bin_bytes m" "{..<max_size_bytes m}"] by simp
qed

lemma card_disjoint_list:
  assumes "sorted_wrt (\<lambda>a b. loc_bytes a \<inter> loc_bytes b = {}) ls"
  shows "card (\<Union> (loc_bytes ` set ls)) = sum_list (map loc_len ls)"
  using assms
proof (induction ls)
  case (Cons l ls)
  then have "loc_bytes l \<inter> \<Union> (loc_bytes ` set ls) = {}" by auto
  moreover have "card (loc_bytes l) = loc_len l" by (simp add: loc_bytes_def card_cartesian_product)
  ultimately show ?case using Cons by (simp add: card_Un_disjoint)
qed simp



section \<open>Bins that the index does not name\<close>

text \<open>
  C30. Rebuilding loses the bins that no index entry names although a later bin is in use: their
  bytes count as part of the storage, but in no state of any later run are they free or part of a
  live object, so that no allocation ever returns them.
\<close>

theorem rebuild_loses_unnamed_bins:
  assumes "storage_sizes_ok layout" and "from_occupied layout entries = Ok m0"
    and "storage_run layout entries m live"
  shows "unnamed_bin_bytes m0 entries \<subseteq> bin_bytes m
    \<and> unnamed_bin_bytes m0 entries \<inter> (free_bytes m \<union> \<Union> (loc_bytes ` set live)) = {}"
  using storage_run_tiled [OF assms(3,1)] assms(2) by (auto simp: bins.tiled_def)

theorem rebuild_loses_unnamed_bins_witness:
  "\<exists>m. from_occupied small_layout
       [\<lparr>combined_key = ''k'', entry_location = \<lparr>loc_bin_id = 1, loc_offset = 0, loc_len = 6\<rparr>, accessed_nanos = 0\<rparr>] = Ok m
     \<and> (0, 0) \<in> bin_bytes m \<and> (0, 0) \<notin> free_bytes m \<and> allocate m 1 = (m, Ok None)"
proof -
  let ?es = "[\<lparr>combined_key = ''k'', entry_location = \<lparr>loc_bin_id = 1, loc_offset = 0, loc_len = 6\<rparr>, accessed_nanos = 0\<rparr>]"
  have "case from_occupied small_layout ?es of Err e \<Rightarrow> False
      | Ok m \<Rightarrow> next_bin_id m = 2 \<and> bin_capacity m 0 = Some 8 \<and> snd (allocate m 1) = Ok None"
    by code_simp
  then obtain m where m: "from_occupied small_layout ?es = Ok m" "next_bin_id m = 2" "bin_capacity m 0 = Some 8"
    "snd (allocate m 1) = Ok None" by (auto split: result.splits)
  have run: "storage_run small_layout ?es m (map entry_location ?es)" using m(1) by (rule rebuilt)
  have ok: "free_map_ok m" using from_occupied_state(1) [OF small_sizes_ok m(1)] .
  have "(0, 0) \<in> unnamed_bin_bytes m ?es" using m(2,3) by (simp add: unnamed_bin_bytes_def bin_bytes_def)
  with rebuild_loses_unnamed_bins [OF small_sizes_ok m(1) run]
  have "(0, 0) \<in> bin_bytes m" "(0, 0) \<notin> free_bytes m" by auto
  moreover have "allocate m 1 = (m, Ok None)"
    using allocate_unchanged [OF ok, of 1 _ "Ok None"] m(4) by (cases "allocate m 1") auto
  ultimately show ?thesis using m(1) by blast
qed

end
