(* ===== verification/Cache_Purge.thy ===== *)
theory Cache_Purge
  imports Rust_Str "HOL-Library.AList"
begin

text \<open>
  The purge index of \<open>crates/fluxheim-cache/src/purge_index.rs\<close>: the entries in the order of their
  insertion, the searches that purging uses, the wildcard match of paths and the length-delimited
  components of primary keys. A \<open>HashMap\<close> is an association list with distinct keys; the order in
  which Rust iterates it is unspecified, so no statement depends on the order of the list.
\<close>

section \<open>The index\<close>

record purge_entry =
  pe_combined_key :: string
  pe_primary_key :: string
  pe_user_tag :: string
  pe_path :: "string option"
  pe_cache_tags :: "string list"

record purge_index =
  pi_entries :: "(string \<times> purge_entry) list"
  pi_order :: "string list"

definition purge_index_new :: purge_index where
  "purge_index_new = \<lparr>pi_entries = [], pi_order = []\<rparr>"

definition insert_with_path_and_tags ::
  "purge_index \<Rightarrow> string \<Rightarrow> string \<Rightarrow> string \<Rightarrow> string option \<Rightarrow> string list \<Rightarrow> purge_index" where
  "insert_with_path_and_tags inner combined_key primary_key user_tag path cache_tags =
     (let e = \<lparr>pe_combined_key = combined_key, pe_primary_key = primary_key, pe_user_tag = user_tag,
               pe_path = path, pe_cache_tags = cache_tags\<rparr>
      in if map_of (pi_entries inner) combined_key \<noteq> None
         then inner\<lparr>pi_entries := AList.update combined_key e (pi_entries inner)\<rparr>
         else inner\<lparr>pi_order := pi_order inner @ [combined_key],
                    pi_entries := AList.update combined_key e (pi_entries inner)\<rparr>)"

definition insert_with_path ::
  "purge_index \<Rightarrow> string \<Rightarrow> string \<Rightarrow> string \<Rightarrow> string option \<Rightarrow> purge_index" where
  "insert_with_path inner combined_key primary_key user_tag path =
     insert_with_path_and_tags inner combined_key primary_key user_tag path []"

definition purge_remove_combined :: "purge_index \<Rightarrow> string \<Rightarrow> purge_index \<times> bool" where
  "purge_remove_combined inner combined_key =
     (let removed = map_of (pi_entries inner) combined_key \<noteq> None;
          inner' = inner\<lparr>pi_entries := AList.delete combined_key (pi_entries inner)\<rparr>
      in if removed
         then (inner'\<lparr>pi_order := filter (\<lambda>candidate. candidate \<noteq> combined_key) (pi_order inner')\<rparr>, removed)
         else (inner', removed))"

definition contains_combined :: "purge_index \<Rightarrow> string \<Rightarrow> bool" where
  "contains_combined inner combined_key \<longleftrightarrow> map_of (pi_entries inner) combined_key \<noteq> None"

definition move_combined_keys_to_back :: "purge_index \<Rightarrow> string list \<Rightarrow> purge_index" where
  "move_combined_keys_to_back inner combined_keys =
     (if combined_keys = [] then inner
      else let candidates = filter (contains_combined inner) combined_keys
           in if candidates = [] then inner
              else inner\<lparr>pi_order := filter (\<lambda>key. key \<notin> set candidates) (pi_order inner) @ candidates\<rparr>)"

definition combined_keys_for_primary :: "purge_index \<Rightarrow> string \<Rightarrow> string list" where
  "combined_keys_for_primary inner primary_key =
     map pe_combined_key (filter (\<lambda>e. pe_primary_key e = primary_key) (map snd (pi_entries inner)))"

definition entries_matching :: "purge_index \<Rightarrow> nat \<Rightarrow> (purge_entry \<Rightarrow> bool) \<Rightarrow> purge_entry list" where
  "entries_matching inner limit matches =
     (if limit = 0 then []
      else take limit (filter matches (List.map_filter (map_of (pi_entries inner)) (pi_order inner))))"

definition entries_with_prefix :: "purge_index \<Rightarrow> string \<Rightarrow> nat \<Rightarrow> purge_entry list" where
  "entries_with_prefix inner pre limit =
     (if pre = [] \<or> limit = 0 then []
      else entries_matching inner limit (\<lambda>e. starts_with pre (pe_combined_key e)))"

definition entries_for_user_tag :: "purge_index \<Rightarrow> string \<Rightarrow> nat \<Rightarrow> purge_entry list" where
  "entries_for_user_tag inner user_tag limit =
     (if user_tag = [] \<or> limit = 0 then []
      else entries_matching inner limit (\<lambda>e. pe_user_tag e = user_tag))"

definition entries_for_user_tag_path_prefix ::
  "purge_index \<Rightarrow> string \<Rightarrow> string \<Rightarrow> nat \<Rightarrow> purge_entry list" where
  "entries_for_user_tag_path_prefix inner user_tag path_prefix limit =
     (if user_tag = [] \<or> path_prefix = [] \<or> limit = 0 then []
      else entries_matching inner limit (\<lambda>e. pe_user_tag e = user_tag \<and>
        (case pe_path e of None \<Rightarrow> False | Some path \<Rightarrow> starts_with path_prefix path)))"

definition entries_for_user_tag_path_exact ::
  "purge_index \<Rightarrow> string \<Rightarrow> string \<Rightarrow> nat \<Rightarrow> purge_entry list" where
  "entries_for_user_tag_path_exact inner user_tag path_exact limit =
     (if user_tag = [] \<or> path_exact = [] \<or> limit = 0 then []
      else entries_matching inner limit (\<lambda>e. pe_user_tag e = user_tag \<and> pe_path e = Some path_exact))"

definition entries_for_user_tag_cache_tag ::
  "purge_index \<Rightarrow> string \<Rightarrow> string \<Rightarrow> nat \<Rightarrow> purge_entry list" where
  "entries_for_user_tag_cache_tag inner user_tag cache_tag limit =
     (if user_tag = [] \<or> cache_tag = [] \<or> limit = 0 then []
      else entries_matching inner limit (\<lambda>e. pe_user_tag e = user_tag \<and> cache_tag \<in> set (pe_cache_tags e)))"

section \<open>Wildcard paths\<close>

text \<open>\<open>str::find\<close> of a string.\<close>

fun find_str :: "string \<Rightarrow> string \<Rightarrow> nat option" where
  "find_str p s =
     (if starts_with p s then Some 0
      else case s of [] \<Rightarrow> None | c # r \<Rightarrow> map_option Suc (find_str p r))"

declare find_str.simps [simp del]

text \<open>The loop over the parts between the stars; \<open>None\<close> is the return of \<open>false\<close>.\<close>

fun wildcard_parts :: "bool \<Rightarrow> bool \<Rightarrow> string list \<Rightarrow> string \<Rightarrow> string option" where
  "wildcard_parts anchored_start first_part [] rest = Some rest"
| "wildcard_parts anchored_start first_part (part # parts) rest =
     (if first_part \<and> anchored_start then
        (case strip_prefix part rest of
           None \<Rightarrow> None
         | Some after_prefix \<Rightarrow> wildcard_parts anchored_start False parts after_prefix)
      else
        (case find_str part rest of
           None \<Rightarrow> None
         | Some index \<Rightarrow> wildcard_parts anchored_start False parts (drop (index + length part) rest)))"

definition cache_path_wildcard_matches :: "string \<Rightarrow> string \<Rightarrow> bool" where
  "cache_path_wildcard_matches pattern path =
     (if pattern = ''*'' then True
      else let anchored_start = \<not> starts_with ''*'' pattern;
               anchored_end = \<not> ends_with ''*'' pattern
           in case wildcard_parts anchored_start True
                (filter (\<lambda>part. part \<noteq> []) (split_on (CHR ''*'') pattern)) path of
                None \<Rightarrow> False
              | Some rest \<Rightarrow> \<not> anchored_end \<or> ends_with ''*'' pattern \<or> rest = [])"

definition entries_for_user_tag_path_pattern ::
  "purge_index \<Rightarrow> string \<Rightarrow> string \<Rightarrow> nat \<Rightarrow> purge_entry list" where
  "entries_for_user_tag_path_pattern inner user_tag path_pattern limit =
     (if user_tag = [] \<or> path_pattern = [] \<or> limit = 0 then []
      else entries_matching inner limit (\<lambda>e. pe_user_tag e = user_tag \<and>
        (case pe_path e of None \<Rightarrow> False | Some path \<Rightarrow> cache_path_wildcard_matches path_pattern path)))"

section \<open>Components of a primary key\<close>

text \<open>
  The loop of \<open>cache_primary_component\<close>. Cutting \<open>after_len\<close> inside a character would make the
  preceding bytes invalid UTF-8, which returns before the cut.
\<close>

function primary_component :: "string \<Rightarrow> string \<Rightarrow> string option" where
  "primary_component rest name =
     (if rest = [] then None
      else case split_once (CHR '':'') rest of
        None \<Rightarrow> None
      | Some (component, after_component) \<Rightarrow>
          (case split_once (CHR '':'') after_component of
             None \<Rightarrow> None
           | Some (len, after_len) \<Rightarrow>
               (case parse_u64 len of
                  None \<Rightarrow> None
                | Some n \<Rightarrow>
                    if length after_len < n then None
                    else if \<not> utf8_valid (take n after_len) then None
                    else (case strip_prefix '';'' (drop n after_len) of
                       None \<Rightarrow> None
                     | Some rest' \<Rightarrow>
                         if component = name then Some (take n after_len) else primary_component rest' name))))"
  by pat_completeness auto
termination
proof (relation "measure (length \<circ> fst)")
  fix rest name x component after_component y len after_len n rest'
  assume "split_once CHR '':'' rest = Some x" "(component, after_component) = x"
    "split_once CHR '':'' after_component = Some y" "(len, after_len) = y"
    "strip_prefix '';'' (drop n after_len) = Some rest'"
  then have "length after_component < length rest" "length after_len \<le> length after_component"
    "length rest' < length after_len"
    by (auto simp: split_once_eq_Some strip_prefix_eq_Some dest: arg_cong [where f = length])
  then show "((rest', name), (rest, name)) \<in> measure (length \<circ> fst)" by simp
qed simp

declare primary_component.simps [simp del]

definition cache_primary_component :: "string \<Rightarrow> string \<Rightarrow> string option" where
  "cache_primary_component primary_key name =
     primary_component
       (case strip_prefix ''fluxheim-image-v1;'' primary_key of None \<Rightarrow> primary_key | Some r \<Rightarrow> r) name"

definition purge_insert :: "purge_index \<Rightarrow> string \<Rightarrow> string \<Rightarrow> string \<Rightarrow> purge_index" where
  "purge_insert inner combined_key primary_key user_tag =
     insert_with_path_and_tags inner combined_key primary_key user_tag
       (cache_primary_component primary_key ''path'') []"

section \<open>Searches of the index\<close>

definition purge_index_ok :: "purge_index \<Rightarrow> bool" where
  "purge_index_ok inner \<longleftrightarrow> distinct (map fst (pi_entries inner)) \<and> distinct (pi_order inner)
     \<and> set (pi_order inner) = fst ` set (pi_entries inner)
     \<and> (\<forall>(k, e) \<in> set (pi_entries inner). pe_combined_key e = k)"

lemma purge_index_ok_iff:
  "purge_index_ok inner \<longleftrightarrow> distinct (map fst (pi_entries inner)) \<and> distinct (pi_order inner)
     \<and> set (pi_order inner) = dom (map_of (pi_entries inner))
     \<and> (\<forall>k e. map_of (pi_entries inner) k = Some e \<longrightarrow> pe_combined_key e = k)"
  by (auto simp: purge_index_ok_def dom_map_of_conv_image_fst map_of_eq_Some_iff)

lemma purge_index_new_ok: "purge_index_ok purge_index_new"
  by (simp add: purge_index_ok_def purge_index_new_def)

lemma insert_with_path_and_tags_ok:
  "purge_index_ok inner \<Longrightarrow> purge_index_ok (insert_with_path_and_tags inner k p u path tags)"
  by (auto simp: purge_index_ok_iff insert_with_path_and_tags_def Let_def update_conv' distinct_update
      dom_def simp del: map_of_eq_Some_iff split: if_splits)

lemma purge_remove_combined_ok:
  "purge_index_ok inner \<Longrightarrow> purge_index_ok (fst (purge_remove_combined inner k))"
  by (auto simp: purge_index_ok_iff purge_remove_combined_def Let_def delete_conv' distinct_delete
      dom_def simp del: map_of_eq_Some_iff split: if_splits)

lemma move_combined_keys_to_back_ok:
  "purge_index_ok inner \<Longrightarrow> distinct keys \<Longrightarrow> purge_index_ok (move_combined_keys_to_back inner keys)"
  by (auto simp: purge_index_ok_iff move_combined_keys_to_back_def contains_combined_def Let_def dom_def
      simp del: map_of_eq_Some_iff)

text \<open>The states of an index: what inserting, removing and moving to the back lead to.\<close>

inductive purge_run :: "purge_index \<Rightarrow> bool" where
  fresh: "purge_run purge_index_new"
| inserted: "purge_run inner \<Longrightarrow> purge_run (insert_with_path_and_tags inner k p u path tags)"
| removed: "purge_run inner \<Longrightarrow> purge_run (fst (purge_remove_combined inner k))"
| moved: "purge_run inner \<Longrightarrow> distinct keys \<Longrightarrow> purge_run (move_combined_keys_to_back inner keys)"

lemma purge_run_ok: "purge_run inner \<Longrightarrow> purge_index_ok inner"
  by (induction rule: purge_run.induct)
    (simp_all add: purge_index_new_ok insert_with_path_and_tags_ok purge_remove_combined_ok
      move_combined_keys_to_back_ok)

lemma ordered_entries:
  assumes "purge_index_ok inner"
  shows "List.map_filter (map_of (pi_entries inner)) (pi_order inner)
    = map (the \<circ> map_of (pi_entries inner)) (pi_order inner)"
  using assms by (auto simp: purge_index_ok_iff List.map_filter_def dom_def simp del: map_of_eq_Some_iff
      intro!: filter_True)

lemma ordered_keys:
  assumes "purge_index_ok inner"
  shows "map pe_combined_key (List.map_filter (map_of (pi_entries inner)) (pi_order inner)) = pi_order inner"
  unfolding ordered_entries [OF assms] map_map
  by (rule map_idI) (use assms in \<open>auto simp: purge_index_ok_iff dom_def\<close>)

lemma ordered_set:
  assumes "purge_index_ok inner"
  shows "set (List.map_filter (map_of (pi_entries inner)) (pi_order inner)) = snd ` set (pi_entries inner)"
proof -
  have "(the \<circ> m) ` dom m = ran m" for m :: "string \<rightharpoonup> purge_entry"
    by (force simp: ran_def dom_def image_iff)
  then show ?thesis
    using assms unfolding ordered_entries [OF assms] by (simp add: purge_index_ok_iff ran_distinct)
qed



section \<open>Wildcard paths against the glob relation\<close>

text \<open>What a wildcard pattern means: a star stands for any bytes, every other byte for itself.\<close>

primrec glob :: "string \<Rightarrow> string \<Rightarrow> bool" where
  "glob [] s \<longleftrightarrow> s = []"
| "glob (c # p) s \<longleftrightarrow>
     (if c = CHR ''*'' then list_ex (\<lambda>k. glob p (drop k s)) [0..<Suc (length s)]
      else s \<noteq> [] \<and> hd s = c \<and> glob p (tl s))"

text \<open>The parts occur in this order, from anywhere in the string.\<close>

primrec embeds :: "string list \<Rightarrow> string \<Rightarrow> bool" where
  "embeds [] s \<longleftrightarrow> True"
| "embeds (p # ps) s \<longleftrightarrow> (\<exists>x y. s = x @ p @ y \<and> embeds ps y)"

lemma find_str_Some:
  "find_str p s = Some i \<Longrightarrow> \<exists>y. s = take i s @ p @ y \<and> drop (i + length p) s = y"
proof (induction s arbitrary: i)
  case Nil
  then show ?case by (auto simp: find_str.simps [of p "[]"] starts_with_iff split: if_splits)
next
  case (Cons c s)
  show ?case
  proof (cases "starts_with p (c # s)")
    case True
    then show ?thesis using Cons.prems by (auto simp: find_str.simps [of p "c # s"] starts_with_iff prefix_def)
  next
    case False
    then obtain j where "find_str p s = Some j" "i = Suc j"
      using Cons.prems by (auto simp: find_str.simps [of p "c # s"])
    then show ?thesis using Cons.IH [of j] by auto
  qed
qed

lemma find_str_leftmost:
  "\<exists>i \<le> length x. find_str p (x @ p @ y) = Some i"
proof (induction x)
  case Nil
  then show ?case by (auto simp: find_str.simps [of p "p @ y"] starts_with_iff)
next
  case (Cons c x)
  then show ?case by (auto simp: find_str.simps [of p "c # x @ p @ y"])
qed

lemma embeds_longer: "embeds ps s \<Longrightarrow> embeds ps (u @ s)"
  by (cases ps) (simp, simp, metis append.assoc)

lemma wildcard_parts_embeds:
  "(\<exists>r. wildcard_parts a False ps s = Some r) \<longleftrightarrow> embeds ps s"
proof (induction ps arbitrary: s)
  case (Cons p ps)
  show ?case
  proof
    assume "\<exists>r. wildcard_parts a False (p # ps) s = Some r"
    then obtain i r where "find_str p s = Some i"
      and "wildcard_parts a False ps (drop (i + length p) s) = Some r" by (auto split: option.splits)
    then show "embeds (p # ps) s" using find_str_Some [of p s i] Cons.IH by fastforce
  next
    assume "embeds (p # ps) s"
    then obtain x y where s: "s = x @ p @ y" and y: "embeds ps y" by auto
    obtain i where i: "find_str p s = Some i" "i \<le> length x" using find_str_leftmost s by blast
    have "drop (i + length p) s = drop (i + length p) (x @ p) @ y" using i(2) s by simp
    then have "embeds ps (drop (i + length p) s)" using embeds_longer [OF y] by metis
    then show "\<exists>r. wildcard_parts a False (p # ps) s = Some r" using i(1) Cons.IH by simp
  qed
qed simp

text \<open>A pattern that goes on after a star, in terms of the parts between its stars.\<close>

lemma glob_plain: "CHR ''*'' \<notin> set a \<Longrightarrow> glob (a @ p) s \<longleftrightarrow> (\<exists>t. s = a @ t \<and> glob p t)"
proof (induction a arbitrary: s)
  case (Cons c a)
  then show ?case by (cases s) auto
qed simp

lemma glob_star: "glob (CHR ''*'' # p) s \<longleftrightarrow> (\<exists>x t. s = x @ t \<and> glob p t)"
proof
  assume "glob (CHR ''*'' # p) s"
  then obtain k where "glob p (drop k s)" by (auto simp: list_ex_iff simp del: upt_Suc)
  then show "\<exists>x t. s = x @ t \<and> glob p t" by (metis append_take_drop_id)
next
  assume "\<exists>x t. s = x @ t \<and> glob p t"
  then obtain x t where "s = x @ t" "glob p t" by blast
  then have "glob p (drop (length x) s) \<and> length x \<in> set [0..<Suc (length s)]" by auto
  then show "glob (CHR ''*'' # p) s" by (auto simp: list_ex_iff simp del: upt_Suc intro!: bexI [of _ "length x"])
qed

lemma glob_stars:
  assumes "\<And>p. p \<in> set ps \<Longrightarrow> CHR ''*'' \<notin> set p" and "CHR ''*'' \<notin> set l"
  shows "glob (CHR ''*'' # join_with ''*'' (ps @ [l])) t \<longleftrightarrow> (\<exists>u. t = u @ l \<and> embeds ps u)"
  using assms(1)
proof (induction ps arbitrary: t)
  case Nil
  have "glob l t' \<longleftrightarrow> t' = l" for t' using glob_plain [OF assms(2), of "[]"] by simp
  then show ?case unfolding glob_star by simp
next
  case (Cons p ps)
  define r where "r = CHR ''*'' # join_with ''*'' (ps @ [l])"
  have split: "CHR ''*'' # join_with ''*'' ((p # ps) @ [l]) = CHR ''*'' # (p @ r)"
    by (simp add: join_with_Cons r_def)
  have q: "glob r t' \<longleftrightarrow> (\<exists>u. t' = u @ l \<and> embeds ps u)" for t'
    using Cons unfolding r_def by simp
  have pq: "glob (p @ r) t' \<longleftrightarrow> (\<exists>t''. t' = p @ t'' \<and> glob r t'')" for t'
    using Cons.prems by (intro glob_plain) simp
  show ?case
  proof
    assume "glob (CHR ''*'' # join_with ''*'' ((p # ps) @ [l])) t"
    then obtain x u where "t = x @ p @ u @ l" "embeds ps u" unfolding split glob_star pq q by blast
    then have "t = (x @ p @ u) @ l \<and> embeds (p # ps) (x @ p @ u)" unfolding embeds.simps by auto
    then show "\<exists>u. t = u @ l \<and> embeds (p # ps) u" by blast
  next
    assume "\<exists>u. t = u @ l \<and> embeds (p # ps) u"
    then obtain x y where "t = x @ p @ y @ l" "embeds ps y" by auto
    then show "glob (CHR ''*'' # join_with ''*'' ((p # ps) @ [l])) t" unfolding split glob_star pq q by blast
  qed
qed

lemma embeds_nonempty: "embeds (filter (\<lambda>p. p \<noteq> []) ps) s = embeds ps s"
proof (induction ps arbitrary: s)
  case (Cons p ps)
  then show ?case by (cases "p = []") (auto intro: embeds_longer)
qed simp

lemma embeds_append: "embeds ps s \<Longrightarrow> embeds ps (s @ u)"
proof (induction ps arbitrary: s)
  case (Cons p ps)
  then obtain x y where "s = x @ p @ y" "embeds ps y" by auto
  then have "s @ u = x @ p @ (y @ u) \<and> embeds ps (y @ u)" using Cons.IH by simp
  then show ?case unfolding embeds.simps by blast
qed simp

lemma wildcard_parts_Some:
  "wildcard_parts a False ps s = Some r \<Longrightarrow> \<exists>u. s = u @ r \<and> embeds ps u"
proof (induction ps arbitrary: s)
  case (Cons p ps)
  then obtain i where i: "find_str p s = Some i"
    and "wildcard_parts a False ps (drop (i + length p) s) = Some r" by (auto split: option.splits)
  then obtain u where "drop (i + length p) s = u @ r" "embeds ps u" using Cons.IH by blast
  with find_str_Some [OF i] show ?case by (metis append.assoc embeds.simps(2))
qed simp

lemma wildcard_parts_append:
  "wildcard_parts a False (ps @ qs) s = Option.bind (wildcard_parts a False ps s) (wildcard_parts a False qs)"
  by (induction ps arbitrary: s) (auto split: option.splits)

lemma wildcard_parts_first:
  "wildcard_parts a True (filter (\<lambda>p. p \<noteq> []) (p # ps)) s =
     (if p \<noteq> [] \<and> a then Option.bind (strip_prefix p s) (wildcard_parts a False (filter (\<lambda>p. p \<noteq> []) ps))
      else if a then wildcard_parts a True (filter (\<lambda>p. p \<noteq> []) ps) s
      else wildcard_parts a False (filter (\<lambda>p. p \<noteq> []) (p # ps)) s)"
  by (cases "filter (\<lambda>p. p \<noteq> []) ps") (auto split: option.splits)

text \<open>A pattern by its stars: none, or a first part, some middle parts and a last part.\<close>

lemma pattern_cases:
  obtains (plain) "CHR ''*'' \<notin> set pattern"
  | (stars) s0 mid l where "split_on (CHR ''*'') pattern = s0 # mid @ [l]"
      "pattern = s0 @ CHR ''*'' # join_with ''*'' (mid @ [l])"
      "CHR ''*'' \<notin> set s0" "\<And>p. p \<in> set mid \<Longrightarrow> CHR ''*'' \<notin> set p" "CHR ''*'' \<notin> set l"
proof (cases "CHR ''*'' \<in> set pattern")
  case True
  then obtain a b where ab: "pattern = a @ CHR ''*'' # b" "CHR ''*'' \<notin> set a"
    using split_list_first by fastforce
  then have sp: "split_on (CHR ''*'') pattern = a # split_on (CHR ''*'') b" by (simp add: split_on_append)
  obtain mid l where ml: "split_on (CHR ''*'') b = mid @ [l]"
    by (metis rev_exhaust split_on_neq_Nil)
  have b: "b = join_with ''*'' (mid @ [l])" using join_split_on [of "CHR ''*''" b] ml by simp
  have no: "CHR ''*'' \<notin> set p" if "p \<in> set (mid @ [l])" for p using that ml split_on_no_sep by metis
  show ?thesis
    by (rule stars [of a mid l]) (use sp ml ab b no in simp_all)
qed (rule plain)

lemma join_with_last: "\<exists>u. join_with ''*'' (mid @ [l]) = u @ l \<and> (u = [] \<or> last u = CHR ''*'')"
proof (induction mid)
  case (Cons m mid)
  then obtain u where u: "join_with ''*'' (mid @ [l]) = u @ l" "u = [] \<or> last u = CHR ''*''" by blast
  then have "join_with ''*'' ((m # mid) @ [l]) = (m @ CHR ''*'' # u) @ l" by (simp add: join_with_Cons)
  moreover have "last (m @ CHR ''*'' # u) = CHR ''*''" using u(2) by auto
  ultimately show ?case by blast
qed simp

lemma ends_with_star:
  assumes "pattern = s0 @ CHR ''*'' # join_with ''*'' (mid @ [l])" and "CHR ''*'' \<notin> set l"
  shows "ends_with ''*'' pattern \<longleftrightarrow> l = []"
proof -
  obtain u where u: "join_with ''*'' (mid @ [l]) = u @ l" "u = [] \<or> last u = CHR ''*''"
    using join_with_last by blast
  have suf: "suffix ''*'' xs \<longleftrightarrow> xs \<noteq> [] \<and> last xs = CHR ''*''" for xs
    by (cases xs rule: rev_cases) (auto simp: suffix_def)
  have pat: "pattern = s0 @ CHR ''*'' # u @ l" using assms(1) u(1) by simp
  show ?thesis
  proof (cases "l = []")
    case True
    then show ?thesis unfolding ends_with_iff suf pat using u(2) by auto
  next
    case False
    then have "last pattern = last l" "last l \<in> set l" unfolding pat by simp_all
    with False assms(2) show ?thesis unfolding ends_with_iff suf by metis
  qed
qed

lemma wildcard_stars:
  assumes "split_on (CHR ''*'') pattern = s0 # mid @ [l]"
    and "pattern = s0 @ CHR ''*'' # join_with ''*'' (mid @ [l])" and "CHR ''*'' \<notin> set l"
    and "CHR ''*'' \<notin> set s0"
  shows "cache_path_wildcard_matches pattern path \<longleftrightarrow>
    (\<exists>t r. path = s0 @ t \<and> wildcard_parts (s0 \<noteq> []) False (filter (\<lambda>p. p \<noteq> []) (mid @ [l])) t = Some r
      \<and> (l = [] \<or> r = []))"
proof -
  have start: "starts_with ''*'' pattern \<longleftrightarrow> s0 = []"
    using assms(2,4) by (cases s0) (auto simp: starts_with_iff)
  have one: "pattern = ''*'' \<Longrightarrow> s0 = [] \<and> l = [] \<and> mid = []"
    using assms(1) by (cases mid) auto
  show ?thesis
  proof (cases "pattern = ''*''")
    case True
    then show ?thesis using one by (simp add: cache_path_wildcard_matches_def)
  next
    case False
    have "wildcard_parts (s0 \<noteq> []) True (filter (\<lambda>p. p \<noteq> []) (s0 # mid @ [l])) path
        = Option.bind (strip_prefix s0 path) (wildcard_parts (s0 \<noteq> []) False (filter (\<lambda>p. p \<noteq> []) (mid @ [l])))"
      unfolding wildcard_parts_first by (cases "s0 = []") simp_all
    then show ?thesis
      unfolding cache_path_wildcard_matches_def Let_def start ends_with_star [OF assms(2,3)] assms(1)
      using False by (auto simp: strip_prefix_eq_Some split: option.split bind_splits)
  qed
qed

text \<open>
  C32. Wildcard purges hit no path outside their pattern: a path that the matcher accepts is one the
  pattern denotes, where a star stands for any bytes. A pattern without a star, and a pattern that
  ends in one, is matched exactly.
\<close>

theorem wildcard_matches_glob:
  "(cache_path_wildcard_matches pattern path \<longrightarrow> glob pattern path)
   \<and> (ends_with ''*'' pattern \<or> CHR ''*'' \<notin> set pattern \<longrightarrow>
        cache_path_wildcard_matches pattern path = glob pattern path)"
proof (cases pattern rule: pattern_cases)
  case plain
  have spec: "glob pattern path \<longleftrightarrow> path = pattern" using glob_plain [OF plain, of "[]"] by simp
  have no: "starts_with ''*'' pattern = False" "ends_with ''*'' pattern = False" "(pattern = ''*'') = False"
    using plain by (auto simp: starts_with_iff ends_with_iff prefix_def suffix_def)
  have parts: "wildcard_parts True True (filter (\<lambda>p. p \<noteq> []) [pattern]) path = strip_prefix pattern path"
    by (simp split: option.split)
  have "cache_path_wildcard_matches pattern path \<longleftrightarrow>
      (case strip_prefix pattern path of None \<Rightarrow> False | Some r \<Rightarrow> r = [])"
    unfolding cache_path_wildcard_matches_def Let_def split_on_single [OF plain]
    by (simp only: no parts if_False not_False_eq_True simp_thms)
  also have "\<dots> \<longleftrightarrow> path = pattern"
    using strip_prefix_eq_Some [of pattern path "[]"] by (auto split: option.split)
  finally show ?thesis unfolding spec by simp
next
  case (stars s0 mid l)
  let ?ne = "filter (\<lambda>p. p \<noteq> [])"
  have code: "cache_path_wildcard_matches pattern path \<longleftrightarrow> (\<exists>t r. path = s0 @ t
      \<and> wildcard_parts (s0 \<noteq> []) False (?ne (mid @ [l])) t = Some r \<and> (l = [] \<or> r = []))"
    by (rule wildcard_stars [OF stars(1,2,5,3)])
  have spec: "glob pattern path \<longleftrightarrow> (\<exists>t. path = s0 @ t \<and> (\<exists>u. t = u @ l \<and> embeds mid u))"
    unfolding stars(2) glob_plain [OF stars(3)] by (simp only: glob_stars [OF stars(4,5)])
  have ends: "ends_with ''*'' pattern \<longleftrightarrow> l = []" by (rule ends_with_star [OF stars(2,5)])
  have star: "CHR ''*'' \<in> set pattern" unfolding stars(2) by simp
  show ?thesis
  proof (cases "l = []")
    case True
    then have "cache_path_wildcard_matches pattern path = glob pattern path"
      unfolding code spec using wildcard_parts_embeds [of "s0 \<noteq> []" "?ne mid"] by (simp add: embeds_nonempty)
    then show ?thesis by blast
  next
    case False
    have "\<exists>u. t = u @ l \<and> embeds mid u" if w: "wildcard_parts a False (?ne (mid @ [l])) t = Some []" for t a
    proof -
      from w False obtain r where r: "wildcard_parts a False (?ne mid) t = Some r"
        and l: "wildcard_parts a False [l] r = Some []"
        by (auto simp: wildcard_parts_append bind_eq_Some_conv)
      from wildcard_parts_Some [OF r] obtain u where u: "t = u @ r" "embeds mid u" by (auto simp: embeds_nonempty)
      from l obtain i where i: "find_str l r = Some i" "drop (i + length l) r = []" by (auto split: option.splits)
      from find_str_Some [OF i(1)] i(2) have "r = take i r @ l" by simp
      with u have "t = (u @ take i r) @ l" "embeds mid (u @ take i r)" by (simp_all add: embeds_append)
      then show ?thesis by blast
    qed
    then show ?thesis unfolding code spec using False ends star by blast
  qed
qed

theorem wildcard_matches_glob_witness:
  "cache_path_wildcard_matches ''/media/*/thumb.png'' ''/media/a/thumb.png'' \<and> glob ''/media/*/thumb.png'' ''/media/a/thumb.png''
   \<and> \<not> glob ''/media/*'' ''/asset/thumb.png''"
proof -
  have "cache_path_wildcard_matches ''/media/*/thumb.png'' ''/media/a/thumb.png''"
    "\<not> cache_path_wildcard_matches ''/media/*'' ''/asset/thumb.png''" "ends_with ''*'' ''/media/*''"
    by code_simp+
  then show ?thesis
    using wildcard_matches_glob [of "''/media/*/thumb.png''" "''/media/a/thumb.png''"]
      wildcard_matches_glob [of "''/media/*''" "''/asset/thumb.png''"] by blast
qed



end
