(* ===== verification/Spec2Isabelle.thy ===== *)
theory Spec2Isabelle
  imports Http1_Chunked_Props Http1_Response Stream_IO_Props Stream_Selector Stream_Address Headers_Props Storage_Bin_Runs Cache_Purge
begin

text \<open>
  Verification library of Fluxheim, an HTTP reverse proxy, TCP stream proxy and cache in Rust.

  \<^bold>\<open>The program.\<close> Bytes of a client connection reach the protocol crate
  (\<open>crates/fluxheim-protocol\<close>), which finds the end of a request head, parses request line, target
  and header fields, decides how the body is framed, and decodes chunked bodies as they arrive. The
  header crate (\<open>crates/fluxheim-headers\<close>) works out the client address, builds the forwarded headers
  and rewrites response headers by rules that the configuration crate (\<open>crates/fluxheim-config\<close>)
  validated. The stream crate (\<open>crates/fluxheim-stream\<close>) proxies plain TCP: it admits a source, reads
  and writes PROXY protocol headers, selects an upstream and copies both directions. The cache crate
  (\<open>crates/fluxheim-cache\<close>) keeps cached objects in storage bins, files of a fixed size that it
  allocates by byte ranges. The other crates connect these parts to sockets, TLS, files and tasks.

  \<^bold>\<open>Conventions.\<close> Bytes and \<open>&str\<close> are lists of \<open>char\<close>, a HOL \<open>char\<close> being one byte; \<open>usize\<close>,
  \<open>u64\<close> and smaller integers are \<open>nat\<close> with the checked, saturating and wrapping operations of Rust
  written out against the width (\<open>Prelude\<close>); addresses are words; \<open>Result\<close> is the data type \<open>result\<close>
  with the error enumerations of the sources; \<open>BTreeMap\<close> is the red-black map of HOL-Library. A
  panic of the chunked decoder (a slice out of range) is a value of the model, so that its absence is
  a theorem. Sockets are arguments: the lists of read and write events they deliver, so that a
  theorem for all lists is one for all segmentations, short writes and failures.
  Every definition is executable, every loop is structural recursion or has a termination proof, and
  no definition takes fuel.

  \<^bold>\<open>Theories.\<close>

  \<^item> \<open>Prelude\<close>, \<open>Rust_Str\<close>, \<open>Net_Addr\<close>, \<open>Net_Display\<close>: results, integers, the functions of Rust's
    \<open>str\<close> and slices, IP addresses with their parser and printer, with the lemmas all others share.
  \<^item> \<open>Http_Lib\<close>: \<open>fluxheim-protocol/src/lib.rs\<close>, tokens, route methods and path prefixes.
  \<^item> \<open>Http1_Types\<close>, \<open>Http1_Chunked\<close>: limits, errors and the decoder of \<open>http1_chunked.rs\<close>. Its state
    is the record \<open>decoder\<close>; every arm of the loop of \<open>process\<close> is a step function; the two sinks
    (a growing vector, a fixed slice) interpret the locale \<open>chunk_sink\<close>. \<open>Http1_Chunked_Spec\<close> is
    the decoder of a whole input, without buffer, offsets or compaction. \<open>Http1_Chunked_Props\<close> shows
    that the incremental decoder refines it (C2), hence does not depend on how the body is cut (C1),
    inverts the encoding of RFC 9112 (C3), and keeps its limits (C4).
  \<^item> \<open>Http1_Target\<close>, \<open>Http1_Connection\<close>, \<open>Http1_Head\<close>, \<open>Http1_Head_Props\<close>, \<open>Http1_Response\<close>:
    \<open>http1_target.rs\<close>, \<open>http1_connection.rs\<close>, \<open>http1.rs\<close>, \<open>http1_response.rs\<close>. A target and a head
    lose no byte in parsing (C5, C7), the incremental buffer equals the parser of the whole input
    (C6), framing and authority are unambiguous (C8, C9), printed heads parse back (C10, C11).
  \<^item> \<open>Proxy_Protocol\<close>, \<open>Proxy_Protocol_Props\<close>: \<open>proxy_protocol.rs\<close>. Both header versions round trip
    (C12, C13), and a trusted network is the range it denotes (C14).
  \<^item> \<open>Stream_Proxy\<close>, \<open>Stream_IO\<close>, \<open>Stream_IO_Props\<close>, \<open>Stream_Selector\<close>, \<open>Stream_Address\<close>: \<open>lib.rs\<close>,
    \<open>copy.rs\<close> and \<open>selector.rs\<close> of \<open>fluxheim-stream\<close>. PROXY headers survive any segmentation (C15)
    and come from trusted peers only (C16); a copied direction is exact, bounded and leaves no
    plaintext behind (C17); the selector is fair by weight (C18)
    and offers each undrained upstream once (C19); the DNS filter is the table of special-purpose
    networks (C20).
  \<^item> \<open>Config_Net\<close>, \<open>Config_Net_Props\<close>, \<open>Config_Header\<close>: \<open>config_net.rs\<close>,
    \<open>config_header_validation.rs\<close>, \<open>config_header.rs\<close> and the rewriting rules of \<open>fluxheim-config\<close>.
    Host names have one normal form (C25).
  \<^item> \<open>Headers\<close>, \<open>Headers_Props\<close>: \<open>client_ip.rs\<close>, \<open>hop_by_hop.rs\<close> and \<open>lib.rs\<close> of \<open>fluxheim-headers\<close>.
    The client address cannot be forged past an untrusted hop (C21), a \<open>Forwarded\<close> value cannot be
    extended through its parts (C22), the first matching rule decides a rewrite (C23), and validated
    rules keep the segments of a cookie (C24).
  \<^item> \<open>Storage_Bin\<close>, \<open>Storage_Bin_Ranges\<close>, \<open>Storage_Bin_Laws\<close>, \<open>Storage_Bin_Props\<close>,
    \<open>Storage_Bin_Rebuild\<close>, \<open>Storage_Bin_Runs\<close>: \<open>storage_bin_alloc.rs\<close> and the layout and locations of
    \<open>storage_bin_manifest.rs\<close>. The free map is the record \<open>free_map\<close>; the locale \<open>byte_allocator\<close>
    states its laws over sets of bytes, and its interpretation on the free map discharges them.
    Over every run of the inductive relation \<open>storage_run\<close> the live objects are disjoint (C26) and
    all bytes are accounted for (C29); allocation fails only when nothing fits (C27), release undoes
    it (C28), and bins without an index entry are lost by a rebuild (C30).
  \<^item> \<open>Cache_Purge\<close>: \<open>purge_index.rs\<close> of the cache crate. A search misses no entry it does not report
    (C31), the wildcard matcher accepts only what a pattern denotes (C32) but misses paths that
    repeat the part after a star (C33).

  \<^bold>\<open>Parameters.\<close> Whether the allocator can grow a vector is a predicate given to the vector sink of
  the chunked decoder, and the socket events are lists; no law is assumed of either.

  \<^bold>\<open>Not modelled.\<close> The asynchronous server, HTTP/2, TLS, ACME, WebAssembly and FastCGI parts drive
  third-party libraries and the operating system, whose code is not in the repository; storage-bin
  files, snapshots, logs, metrics, the admin interface and the command line are input and output.
  The cache policy of requests and responses, the load balancer and the deserialisation of the
  configuration file are independent of the parts above and are left out.
\<close>

end
